theory Spec2Isabelle
  imports Main "HOL-Library.List_Lexorder" "HOL-Library.FSet" "HOL-Library.AList"
begin

section \<open>Python values\<close>

text \<open>
  A Python \<open>str\<close> is a sequence of Unicode code points, so a string of the program is a
  list of code points (\<open>length\<close> counts what Python's \<open>len\<close> counts). The program's
  literals contain Hangul, which does not fit an 8-bit character. ASCII literals are
  written \<open>ascii ''...''\<close>.
\<close>

type_synonym pystr = "nat list"

definition ascii :: "string \<Rightarrow> pystr" where
  "ascii = map of_char"

text \<open>
  The exceptions of the program, as values; \<open>OtherException\<close> holds the class name of an
  exception of a library that the program does not tell from the others.
\<close>

datatype pyerror =
    ValueError | OverflowError | TypeError | RecursionError | RequestException
  | OtherException pystr

section \<open>timeutil.py\<close>

subsection \<open>\<open>datetime.date\<close>\<close>

text \<open>
  A \<open>date\<close> object holds year, month and day. \<open>py_date\<close> is the checked constructor
  \<open>date(y, m, d)\<close>, which raises \<open>ValueError\<close> outside the proleptic Gregorian calendar
  of the years 1..9999. The ordinal functions follow the standard library's
  \<open>_ymd2ord\<close> and \<open>_ord2ymd\<close>.
\<close>

datatype date = Date (d_year: int) (d_month: int) (d_day: int)

definition MINYEAR :: int where "MINYEAR = 1"
definition MAXYEAR :: int where "MAXYEAR = 9999"
definition MAXORDINAL :: int where "MAXORDINAL = 3652059"

definition DAYS_IN_MONTH :: "int list" where
  "DAYS_IN_MONTH = [-1, 31, 28, 31, 30, 31, 30, 31, 31, 30, 31, 30, 31]"

definition DAYS_BEFORE_MONTH :: "int list" where
  "DAYS_BEFORE_MONTH = [-1, 0, 31, 59, 90, 120, 151, 181, 212, 243, 273, 304, 334]"

definition is_leap :: "int \<Rightarrow> bool" where
  "is_leap y = (y mod 4 = 0 \<and> (y mod 100 \<noteq> 0 \<or> y mod 400 = 0))"

definition days_before_year :: "int \<Rightarrow> int" where
  "days_before_year year = (let y = year - 1 in y * 365 + y div 4 - y div 100 + y div 400)"

text \<open>Both are called with \<open>1 \<le> month \<le> 12\<close> only, so the list index is in range.\<close>

definition days_in_month :: "int \<Rightarrow> int \<Rightarrow> int" where
  "days_in_month year month =
     (if month = 2 \<and> is_leap year then 29 else DAYS_IN_MONTH ! nat month)"

definition days_before_month :: "int \<Rightarrow> int \<Rightarrow> int" where
  "days_before_month year month =
     DAYS_BEFORE_MONTH ! nat month + (if month > 2 \<and> is_leap year then 1 else 0)"

definition py_date :: "int \<Rightarrow> int \<Rightarrow> int \<Rightarrow> pyerror + date" where
  "py_date y m d =
     (if \<not> (MINYEAR \<le> y \<and> y \<le> MAXYEAR) then Inl ValueError
      else if \<not> (1 \<le> m \<and> m \<le> 12) then Inl ValueError
      else if \<not> (1 \<le> d \<and> d \<le> days_in_month y m) then Inl ValueError
      else Inr (Date y m d))"

definition ymd2ord :: "int \<Rightarrow> int \<Rightarrow> int \<Rightarrow> int" where
  "ymd2ord y m d = days_before_year y + days_before_month y m + d"

definition toordinal :: "date \<Rightarrow> int" where
  "toordinal dt = ymd2ord (d_year dt) (d_month dt) (d_day dt)"

definition ord2ymd :: "int \<Rightarrow> date" where
  "ord2ymd n0 =
     (let n = n0 - 1;
          n400 = n div 146097; n = n mod 146097;
          year = n400 * 400 + 1;
          n100 = n div 36524; n = n mod 36524;
          n4 = n div 1461; n = n mod 1461;
          n1 = n div 365; n = n mod 365;
          year = year + n100 * 100 + n4 * 4 + n1
      in if n1 = 4 \<or> n100 = 4 then Date (year - 1) 12 31
         else
           let leapyear = (n1 = 3 \<and> (n4 \<noteq> 24 \<or> n100 = 3));
               month = (n + 50) div 32;
               preceding = DAYS_BEFORE_MONTH ! nat month + (if month > 2 \<and> leapyear then 1 else 0)
           in if preceding > n
              then let month = month - 1;
                       preceding = preceding -
                         (DAYS_IN_MONTH ! nat month + (if month = 2 \<and> leapyear then 1 else 0))
                   in Date year month (n - preceding + 1)
              else Date year month (n - preceding + 1))"

text \<open>
  \<open>d + timedelta(days=n)\<close>: \<open>timedelta\<close> raises \<open>OverflowError\<close> beyond 999999999 days,
  and the sum raises \<open>OverflowError\<close> when it leaves the range of \<open>date\<close>.
\<close>

definition date_add_days :: "date \<Rightarrow> int \<Rightarrow> pyerror + date" where
  "date_add_days dt n =
     (if \<bar>n\<bar> > 999999999 then Inl OverflowError
      else let o' = toordinal dt + n
           in if 0 < o' \<and> o' \<le> MAXORDINAL then Inr (ord2ymd o') else Inl OverflowError)"

text \<open>Dates compare as the triples (year, month, day).\<close>

definition date_le :: "date \<Rightarrow> date \<Rightarrow> bool" where
  "date_le a b =
     (d_year a < d_year b \<or> (d_year a = d_year b \<and>
        (d_month a < d_month b \<or> (d_month a = d_month b \<and> d_day a \<le> d_day b))))"

definition date_lt :: "date \<Rightarrow> date \<Rightarrow> bool" where
  "date_lt a b =
     (d_year a < d_year b \<or> (d_year a = d_year b \<and>
        (d_month a < d_month b \<or> (d_month a = d_month b \<and> d_day a < d_day b))))"

subsection \<open>Months and quarters\<close>

datatype YearMonth = YearMonth (ym_year: int) (ym_month: int)

datatype YearQuarter = YearQuarter (yq_year: int) (yq_quarter: int)

text \<open>\<open>prev_month\<close> reads the year and the month of its argument only.\<close>

definition prev_month :: "date \<Rightarrow> YearMonth" where
  "prev_month when' =
     (let y = d_year when'; m = d_month when'
      in if m = 1 then YearMonth (y - 1) 12 else YearMonth y (m - 1))"

definition month_range :: "YearMonth \<Rightarrow> pyerror + (date \<times> date)" where
  "month_range ym =
     (case py_date (ym_year ym) (ym_month ym) 1 of
        Inl e \<Rightarrow> Inl e
      | Inr start \<Rightarrow>
          (case (if ym_month ym = 12 then py_date (ym_year ym + 1) 1 1
                 else py_date (ym_year ym) (ym_month ym + 1) 1) of
             Inl e \<Rightarrow> Inl e
           | Inr end' \<Rightarrow> Inr (start, end')))"

definition quarter_end_date :: "int \<Rightarrow> int \<Rightarrow> pyerror + date" where
  "quarter_end_date year quarter =
     (if quarter = 1 then py_date year 3 31
      else if quarter = 2 then py_date year 6 30
      else if quarter = 3 then py_date year 9 30
      else if quarter = 4 then py_date year 12 31
      else Inl ValueError)"

definition quarter_deadline :: "int \<Rightarrow> int \<Rightarrow> int \<Rightarrow> pyerror + date" where
  "quarter_deadline year quarter buffer_days =
     (case quarter_end_date year quarter of
        Inl e \<Rightarrow> Inl e
      | Inr dt \<Rightarrow> date_add_days dt buffer_days)"

definition report_quarters :: "date \<Rightarrow> YearQuarter list" where
  "report_quarters today =
     (let target_year = d_year today;
          target_year = (if d_month today \<le> 2 then target_year - 1 else target_year);
          count = 4
      in map (\<lambda>q. YearQuarter target_year q) [1..count])"

section \<open>Text: characters and pattern matching\<close>

text \<open>
  The decimal digits of Unicode (category Nd, what \<open>\d\<close> matches in a \<open>str\<close> pattern and
  what \<open>int\<close> reads) come in runs of ten, each run the digits 0 to 9 of one script;
  \<open>DIGIT_ZEROS\<close> lists the code point of the zero of every run (Unicode 14).
\<close>

definition DIGIT_ZEROS :: "nat list" where
  "DIGIT_ZEROS =
     [0x30, 0x660, 0x6f0, 0x7c0, 0x966, 0x9e6, 0xa66, 0xae6, 0xb66, 0xbe6, 0xc66, 0xce6,
      0xd66, 0xde6, 0xe50, 0xed0, 0xf20, 0x1040, 0x1090, 0x17e0, 0x1810, 0x1946, 0x19d0,
      0x1a80, 0x1a90, 0x1b50, 0x1bb0, 0x1c40, 0x1c50, 0xa620, 0xa8d0, 0xa900, 0xa9d0,
      0xa9f0, 0xaa50, 0xabf0, 0xff10, 0x104a0, 0x10d30, 0x11066, 0x110f0, 0x11136,
      0x111d0, 0x112f0, 0x11450, 0x114d0, 0x11650, 0x116c0, 0x11730, 0x118e0, 0x11950,
      0x11c50, 0x11d50, 0x11da0, 0x16a60, 0x16ac0, 0x16b50, 0x1d7ce, 0x1d7d8, 0x1d7e2,
      0x1d7ec, 0x1d7f6, 0x1e140, 0x1e2f0, 0x1e950, 0x1fbf0]"

definition digit_value :: "nat \<Rightarrow> nat option" where
  "digit_value c =
     (case find (\<lambda>z. z \<le> c \<and> c < z + 10) DIGIT_ZEROS of
        None \<Rightarrow> None
      | Some z \<Rightarrow> Some (c - z))"

definition is_digit :: "nat \<Rightarrow> bool" where
  "is_digit c = (digit_value c \<noteq> None)"

text \<open>What \<open>\s\<close> matches in a \<open>str\<close> pattern.\<close>

definition is_space :: "nat \<Rightarrow> bool" where
  "is_space c =
     ((9 \<le> c \<and> c \<le> 13) \<or> (28 \<le> c \<and> c \<le> 32) \<or> c = 133 \<or> c = 160 \<or> c = 5760
      \<or> (8192 \<le> c \<and> c \<le> 8202) \<or> c = 8232 \<or> c = 8233 \<or> c = 8239 \<or> c = 8287
      \<or> c = 12288)"

text \<open>\<open>int(s)\<close> on a string of decimal digits (the only strings the program converts).\<close>

definition int_of_digits :: "pystr \<Rightarrow> int" where
  "int_of_digits s = int (foldl (\<lambda>a c. 10 * a + the (digit_value c)) 0 s)"

text \<open>
  \<open>re.search\<close>: the match at the leftmost start position, the positions tried in order
  from 0 to \<open>len(s)\<close>; \<open>m\<close> matches the pattern at the start of a suffix.
\<close>

fun re_search :: "(pystr \<Rightarrow> 'a option) \<Rightarrow> pystr \<Rightarrow> 'a option" where
  "re_search m [] = m []"
| "re_search m (c # cs) =
     (case m (c # cs) of Some r \<Rightarrow> Some r | None \<Rightarrow> re_search m cs)"

text \<open>The alternatives a backtracking matcher tries, in order: the first that succeeds.\<close>

fun first_some :: "('a \<Rightarrow> 'b option) \<Rightarrow> 'a list \<Rightarrow> 'b option" where
  "first_some f [] = None"
| "first_some f (x # xs) = (case f x of Some r \<Rightarrow> Some r | None \<Rightarrow> first_some f xs)"

text \<open>\<open>\d{k}\<close> at the start of \<open>s\<close>: the digits and the rest.\<close>

definition digits_n :: "nat \<Rightarrow> pystr \<Rightarrow> (pystr \<times> pystr) option" where
  "digits_n k s =
     (if k \<le> length s \<and> list_all is_digit (take k s) then Some (take k s, drop k s) else None)"

section \<open>orgs.py\<close>

datatype Org = Org (org_name: pystr) (org_norm: pystr)

text \<open>
  \<open>re.sub(r"[^0-9A-Za-z\<dots>]", "", s).lower()\<close>, the elided range being the Hangul
  syllables U+AC00..U+D7A3. Of the characters kept, only \<open>A-Z\<close> change under \<open>lower\<close>.
\<close>

definition norm_keep :: "nat \<Rightarrow> bool" where
  "norm_keep c = ((48 \<le> c \<and> c \<le> 57) \<or> (65 \<le> c \<and> c \<le> 90) \<or> (97 \<le> c \<and> c \<le> 122)
                  \<or> (0xAC00 \<le> c \<and> c \<le> 0xD7A3))"

definition ascii_lower :: "nat \<Rightarrow> nat" where
  "ascii_lower c = (if 65 \<le> c \<and> c \<le> 90 then c + 32 else c)"

definition norm_text :: "pystr \<Rightarrow> pystr" where
  "norm_text s = map ascii_lower (filter norm_keep s)"

text \<open>\<open>a in b\<close> on strings: \<open>a\<close> is a contiguous part of \<open>b\<close>.\<close>

fun is_prefix :: "pystr \<Rightarrow> pystr \<Rightarrow> bool" where
  "is_prefix [] s = True"
| "is_prefix (a # as) [] = False"
| "is_prefix (a # as) (c # cs) = (a = c \<and> is_prefix as cs)"

fun str_in :: "pystr \<Rightarrow> pystr \<Rightarrow> bool" where
  "str_in a [] = (a = [])"
| "str_in a (c # cs) = (is_prefix a (c # cs) \<or> str_in a cs)"

fun match_org_loop :: "Org list \<Rightarrow> pystr \<Rightarrow> pystr option" where
  "match_org_loop [] t = None"
| "match_org_loop (org # orgs) t =
     (if length (org_norm org) \<ge> 4 \<and> str_in (org_norm org) t then Some (org_name org)
      else match_org_loop orgs t)"

definition match_org :: "Org list \<Rightarrow> pystr \<Rightarrow> pystr option" where
  "match_org orgs text = (let t = norm_text text in match_org_loop orgs t)"

section \<open>opengov.py: extraction of facts from text\<close>

text \<open>
  \<open>_Q_RE\<close> is \<open>(\d{4})\s*Y.*?([1-4])\s*BG\<close>, where Y is U+B144 (year marker) and B, G
  are U+BD84, U+AE30 (quarter marker). \<open>\s*\<close> is greedy, and giving whitespace back can
  never help, since what follows it is not whitespace; \<open>.*?\<close> is lazy (the shortest
  skip first) and does not cross a newline.
\<close>

definition quarter_tail :: "pystr \<Rightarrow> int option" where
  "quarter_tail s =
     (case s of
        [] \<Rightarrow> None
      | c # r \<Rightarrow>
          if 49 \<le> c \<and> c \<le> 52 \<and> is_prefix [0xBD84, 0xAE30] (dropWhile is_space r)
          then Some (int c - 48) else None)"

fun lazy_any :: "(pystr \<Rightarrow> 'a option) \<Rightarrow> pystr \<Rightarrow> 'a option" where
  "lazy_any k [] = k []"
| "lazy_any k (c # cs) =
     (case k (c # cs) of
        Some r \<Rightarrow> Some r
      | None \<Rightarrow> if c = 10 then None else lazy_any k cs)"

definition q_re_at :: "pystr \<Rightarrow> (pystr \<times> int) option" where
  "q_re_at s =
     (case digits_n 4 s of
        None \<Rightarrow> None
      | Some (y, r) \<Rightarrow>
          (case dropWhile is_space r of
             [] \<Rightarrow> None
           | c # r' \<Rightarrow>
               if c = 0xB144
               then (case lazy_any quarter_tail r' of None \<Rightarrow> None | Some q \<Rightarrow> Some (y, q))
               else None))"

definition extract_year_quarter :: "pystr \<Rightarrow> int option \<times> int option" where
  "extract_year_quarter text =
     (case re_search q_re_at text of
        None \<Rightarrow> (None, None)
      | Some (y, q) \<Rightarrow> (Some (int_of_digits y), Some q))"

text \<open>
  The pattern of \<open>parse_date_loose\<close> is \<open>(\d{4})[.\-/](\d{1,2})[.\-/](\d{1,2})\<close>. The
  greedy \<open>\d{1,2}\<close> tries two digits, then one.
\<close>

definition is_date_sep :: "nat \<Rightarrow> bool" where
  "is_date_sep c = (c = 46 \<or> c = 45 \<or> c = 47)"

definition sep_then :: "(pystr \<Rightarrow> 'a option) \<Rightarrow> pystr \<Rightarrow> 'a option" where
  "sep_then k s = (case s of [] \<Rightarrow> None | c # r \<Rightarrow> if is_date_sep c then k r else None)"

definition date_re_at :: "pystr \<Rightarrow> (pystr \<times> pystr \<times> pystr) option" where
  "date_re_at s =
     (case digits_n 4 s of
        None \<Rightarrow> None
      | Some (y, r) \<Rightarrow>
          sep_then (\<lambda>r1.
            first_some (\<lambda>k.
              case digits_n k r1 of
                None \<Rightarrow> None
              | Some (mo, r2) \<Rightarrow>
                  sep_then (\<lambda>r3.
                    first_some (\<lambda>j.
                      case digits_n j r3 of
                        None \<Rightarrow> None
                      | Some (d, _) \<Rightarrow> Some (y, mo, d)) [2, 1]) r2) [2, 1]) r)"

definition parse_date_loose :: "pystr \<Rightarrow> date option" where
  "parse_date_loose s =
     (case re_search date_re_at s of
        None \<Rightarrow> None
      | Some (y, mo, d) \<Rightarrow>
          (case py_date (int_of_digits y) (int_of_digits mo) (int_of_digits d) of
             Inl e \<Rightarrow> None
           | Inr dt \<Rightarrow> Some dt))"

section \<open>opengov.py: the crawler\<close>

subsection \<open>The site, as the program sees it\<close>

text \<open>
  The program builds the address of a list page from three integers by an f-string that
  determines them, and the address of a detail page from the document's \<open>nid\<close>; the
  addresses of attachments are read from the pages. An address is modelled by what
  determines it.
\<close>

datatype url =
    ListPage (u_items_per_page: int) (u_target_y: int) (u_page: int)
  | DetailPage pystr
  | Href pystr

definition list_page_url :: "int \<Rightarrow> int \<Rightarrow> int \<Rightarrow> url" where
  "list_page_url target_y page items_per_page = ListPage items_per_page target_y page"

text \<open>
  A parsed page (\<open>BeautifulSoup\<close>) is modelled by the results of the queries the program
  makes on it. A table row gives its first anchor whose \<open>href\<close> contains \<open>/public/\<close>, if
  any (the \<open>href\<close>, the anchor's text as \<open>get_text(strip=True)\<close> gives it, the address
  \<open>urljoin(BASE, href)\<close>), and the row's own text. A download link of a detail page gives
  its resolved address, the \<open>dname\<close> and \<open>uri\<close> parameters of its query string and its text.
\<close>

record anchor =
  a_href :: pystr
  a_text :: pystr
  a_abs :: pystr

record row =
  r_anchor :: "anchor option"
  r_text :: pystr

record link =
  l_abs :: pystr
  l_dname :: "pystr option"
  l_uri :: "pystr option"
  l_text :: pystr

record soup =
  total_strong :: "pystr option"
  page_text :: pystr
  table_rows :: "row list"
  download_links :: "link list"

text \<open>
  What the run does to the outside world, in order: the requests it sends and the
  pauses it makes (\<open>SleepFixed\<close> is \<open>time.sleep(1.0)\<close>, \<open>SleepPolite\<close> is
  \<open>time.sleep(polite_sleep_sec)\<close>, which no caller sets).
\<close>

datatype event = Get url | SleepFixed | SleepPolite

text \<open>
  The site answers a request with a page (its parse and its bytes) or the request
  raises; the answer may depend on everything the run did before. \<open>timeout_sec\<close> is
  part of how the site answers.
\<close>

record page =
  p_soup :: soup
  p_content :: "nat list"

type_synonym site = "event list \<Rightarrow> url \<Rightarrow> pyerror + page"

definition get_soup :: "site \<Rightarrow> url \<Rightarrow> event list \<Rightarrow> (pyerror + soup) \<times> event list" where
  "get_soup srv u tr =
     (case srv tr u of
        Inl e \<Rightarrow> (Inl e, tr @ [Get u])
      | Inr p \<Rightarrow> (Inr (p_soup p), tr @ [Get u]))"

subsection \<open>The count of results\<close>

text \<open>
  The first run of digits and commas, the commas removed, as an integer. \<open>int\<close> refuses
  the empty string, and a string of more than 4300 digits (the interpreter's default limit
  for the conversion); the function catches the exception and returns \<open>None\<close>.
\<close>

definition is_digit_or_comma :: "nat \<Rightarrow> bool" where
  "is_digit_or_comma c = (is_digit c \<or> c = 44)"

definition parse_int_from_text :: "pystr \<Rightarrow> int option" where
  "parse_int_from_text text =
     (if text = [] then None
      else case dropWhile (\<lambda>c. \<not> is_digit_or_comma c) text of
             [] \<Rightarrow> None
           | r \<Rightarrow> (let g = filter (\<lambda>c. c \<noteq> 44) (takeWhile is_digit_or_comma r)
                   in if g = [] \<or> length g > 4300 then None else Some (int_of_digits g)))"

text \<open>
  The fallback pattern: the four Hangul syllables U+AC80 U+C0C9 U+ACB0 U+ACFC, \<open>\s*\<close>,
  a colon, \<open>\s*\<close>, and a run of digits and commas.
\<close>

definition count_re_at :: "pystr \<Rightarrow> pystr option" where
  "count_re_at s =
     (if is_prefix [0xAC80, 0xC0C9, 0xACB0, 0xACFC] s
      then (case dropWhile is_space (drop 4 s) of
              [] \<Rightarrow> None
            | c # r \<Rightarrow>
                if c = 58
                then (let g = takeWhile is_digit_or_comma (dropWhile is_space r)
                      in if g = [] then None else Some g)
                else None)
      else None)"

definition fetch_total_count ::
  "site \<Rightarrow> int \<Rightarrow> int \<Rightarrow> event list \<Rightarrow> (pyerror + int option) \<times> event list" where
  "fetch_total_count srv items_per_page target_y tr =
     (case get_soup srv (list_page_url target_y 1 items_per_page) tr of
        (Inl e, tr') \<Rightarrow> (Inl e, tr')
      | (Inr sp, tr') \<Rightarrow>
          (case (case total_strong sp of None \<Rightarrow> None | Some t \<Rightarrow> parse_int_from_text t) of
             Some total' \<Rightarrow> (Inr (Some total'), tr')
           | None \<Rightarrow>
               (case re_search count_re_at (page_text sp) of
                  Some g \<Rightarrow> (Inr (parse_int_from_text g), tr')
                | None \<Rightarrow> (Inr None, tr'))))"

text \<open>
  \<open>max(1, math.ceil(total_count / max(1, items_per_page)))\<close>. The quotient is a float in
  the program; the model rounds the exact quotient up, as the program does for every
  count that a float holds exactly.
\<close>

definition compute_max_pages :: "int \<Rightarrow> int \<Rightarrow> int" where
  "compute_max_pages total_count items_per_page =
     max 1 (- ((- total_count) div (max 1 items_per_page)))"

subsection \<open>The pages\<close>

datatype DocItem = DocItem (nid: pystr) (title: pystr) (pub_date: "date option") (doc_url: pystr)

text \<open>\<open>str.strip()\<close>.\<close>

definition py_strip :: "pystr \<Rightarrow> pystr" where
  "py_strip s = rev (dropWhile is_space (rev (dropWhile is_space s)))"

text \<open>\<open>re.search(r"/public/(\d+)", href)\<close>: the digits of the first match.\<close>

definition nid_re_at :: "pystr \<Rightarrow> pystr option" where
  "nid_re_at s =
     (if is_prefix (ascii ''/public/'') s
      then (let g = takeWhile is_digit (drop 8 s) in if g = [] then None else Some g)
      else None)"

text \<open>
  \<open>docs_by_nid\<close> is a dictionary, which keeps its keys in the order of their first
  insertion: an association list.
\<close>

definition add_row :: "(pystr \<times> DocItem) list \<Rightarrow> row \<Rightarrow> (pystr \<times> DocItem) list" where
  "add_row docs_by_nid tr =
     (case r_anchor tr of
        None \<Rightarrow> docs_by_nid
      | Some a \<Rightarrow>
          (case re_search nid_re_at (a_href a) of
             None \<Rightarrow> docs_by_nid
           | Some nid' \<Rightarrow>
               (let title' = py_strip (a_text a);
                    doc_url' = a_abs a;
                    pub = parse_date_loose (r_text tr)
                in if map_of docs_by_nid nid' = None
                   then docs_by_nid @ [(nid', DocItem nid' title' pub doc_url')]
                   else docs_by_nid)))"

text \<open>
  The loop \<open>for page in range(1, max_pages + 1)\<close>, over the pages still to visit, with the
  loop's variables: the events so far, \<open>docs_by_nid\<close> and \<open>empty_streak\<close>. The list page
  is requested with the default 50 items per page.
\<close>

fun crawl_pages ::
  "site \<Rightarrow> int \<Rightarrow> int \<Rightarrow> int list \<Rightarrow> event list \<Rightarrow> (pystr \<times> DocItem) list \<Rightarrow> int
     \<Rightarrow> (pystr \<times> DocItem) list \<times> event list" where
  "crawl_pages srv target_y stop_after_empty [] tr docs_by_nid empty_streak = (docs_by_nid, tr)"
| "crawl_pages srv target_y stop_after_empty (p # ps) tr docs_by_nid empty_streak =
     (case get_soup srv (list_page_url target_y p 50) tr of
        (Inl e, tr') \<Rightarrow>
          crawl_pages srv target_y stop_after_empty ps (tr' @ [SleepFixed]) docs_by_nid empty_streak
      | (Inr sp, tr') \<Rightarrow>
          if table_rows sp = []
          then (if empty_streak + 1 \<ge> stop_after_empty then (docs_by_nid, tr')
                else crawl_pages srv target_y stop_after_empty ps tr' docs_by_nid (empty_streak + 1))
          else crawl_pages srv target_y stop_after_empty ps (tr' @ [SleepPolite])
                 (foldl add_row docs_by_nid (table_rows sp)) 0)"

text \<open>
  \<open>fetch_docs_all\<close> returns a list of documents, or Python's \<open>None\<close> where it leaves
  through a bare \<open>return\<close>.
\<close>

definition fetch_docs_all ::
  "site \<Rightarrow> YearMonth \<Rightarrow> int \<Rightarrow> int \<Rightarrow> int \<Rightarrow> event list \<Rightarrow> DocItem list option \<times> event list" where
  "fetch_docs_all srv target_ym max_pages_fallback stop_after_empty items_per_page tr =
     (let target_y = ym_year target_ym;
          target_y = (if ym_month target_ym \<le> 2 then target_y - 1 else target_y)
      in case fetch_total_count srv items_per_page target_y tr of
           (Inl e, tr') \<Rightarrow> (None, tr')
         | (Inr total', tr') \<Rightarrow>
             (let max_pages = (case total' of None \<Rightarrow> max_pages_fallback
                               | Some t \<Rightarrow> compute_max_pages t items_per_page)
              in case crawl_pages srv target_y stop_after_empty [1..max_pages] tr' [] 0 of
                   (docs_by_nid, tr'') \<Rightarrow> (Some (map snd docs_by_nid), tr'')))"

subsection \<open>The attachments of a document\<close>

datatype Attachment = Attachment (att_nid: pystr) (att_filename: pystr) (att_url: pystr)

text \<open>\<open>s.split("/")[-1]\<close>: what follows the last slash.\<close>

definition last_segment :: "pystr \<Rightarrow> pystr" where
  "last_segment s = rev (takeWhile (\<lambda>c. c \<noteq> 47) (rev s))"

definition link_filename :: "link \<Rightarrow> pystr" where
  "link_filename a =
     (case l_dname a of
        Some v \<Rightarrow> v
      | None \<Rightarrow>
          (case l_uri a of
             Some v \<Rightarrow> last_segment v
           | None \<Rightarrow> py_strip (if l_text a = [] then ascii ''attachment'' else l_text a)))"

fun dedup_by_url :: "pystr list \<Rightarrow> Attachment list \<Rightarrow> Attachment list" where
  "dedup_by_url seen [] = []"
| "dedup_by_url seen (att # out) =
     (if att_url att \<in> set seen then dedup_by_url seen out
      else att # dedup_by_url (att_url att # seen) out)"

definition fetch_attachments ::
  "site \<Rightarrow> pystr \<Rightarrow> event list \<Rightarrow> (pyerror + Attachment list) \<times> event list" where
  "fetch_attachments srv nid' tr =
     (case get_soup srv (DetailPage nid') tr of
        (Inl e, tr') \<Rightarrow> (Inl e, tr')
      | (Inr sp, tr') \<Rightarrow>
          (let out = map (\<lambda>a. Attachment nid' (link_filename a) (l_abs a)) (download_links sp)
           in (Inr (dedup_by_url [] out), tr')))"

section \<open>summarize.py\<close>

text \<open>
  The values a payload is made of: \<open>None\<close>, booleans, integers, floats, strings, lists
  and dictionaries; \<open>PObject\<close> stands for a value of any other type (a set, bytes, a
  date), given by its \<open>repr\<close>.
\<close>

datatype pyfloat = Finite int int | PosInf | NegInf | NaN

datatype pyval =
    PNone
  | PBool bool
  | PInt int
  | PFloat pyfloat
  | PStr pystr
  | PList "pyval list"
  | PDict "(pyval \<times> pyval) list"
  | PObject pystr

text \<open>
  What \<open>summarize\<close> takes from its libraries and from outside: \<open>json.dumps\<close> with the
  options of the call (the text, or the exception it raises: \<open>TypeError\<close> for a value or a
  key it cannot serialize, \<open>ValueError\<close> for an integer beyond the limit of the
  conversion, \<open>RecursionError\<close> for a nesting too deep), \<open>str.lower\<close> with its Unicode
  case table, the two environment variables, the outcome of the \<open>try\<close> block of
  \<open>_summarize_openai\<close> (the request and the reading of its answer: the content, or the
  exception raised), and the text of an exception in an f-string.
\<close>

record summarizer_env =
  json_dumps :: "pyval \<Rightarrow> pyerror + pystr"
  str_lower :: "pystr \<Rightarrow> pystr"
  OPENAI_API_KEY :: pystr
  OPENAI_MODEL :: pystr
  openai_request :: "pystr \<Rightarrow> pystr \<Rightarrow> pystr \<Rightarrow> pyerror + pystr"
  exc_text :: "pyerror \<Rightarrow> pystr"

definition truncate_text :: "pystr \<Rightarrow> nat \<Rightarrow> pystr" where
  "truncate_text s max_chars =
     (if length s \<le> max_chars then s else take max_chars s @ ascii ''\<newline>...[truncated]'')"

definition summarize_openai :: "summarizer_env \<Rightarrow> pystr \<Rightarrow> pystr" where
  "summarize_openai env text =
     (let api_key = py_strip (OPENAI_API_KEY env);
          model = py_strip (OPENAI_MODEL env)
      in if api_key = []
         then ascii ''(OpenAI '' @ [0xc694, 0xc57d, 32, 0xc2e4, 0xd328] @ ascii '': OPENAI_API_KEY ''
                @ [0xbbf8, 0xc124, 0xc815] @ ascii '')''
         else (case openai_request env api_key model text of
                 Inr content \<Rightarrow> py_strip content
               | Inl e \<Rightarrow>
                   ascii ''(OpenAI '' @ [0xc694, 0xc57d, 32, 0xc2e4, 0xd328] @ ascii '': ''
                     @ exc_text env e @ ascii '')''))"

definition summarize :: "summarizer_env \<Rightarrow> pystr \<Rightarrow> (pystr \<times> pyval) list \<Rightarrow> pyerror + pystr" where
  "summarize env provider payload =
     (let provider = str_lower env (if provider = [] then ascii ''none'' else provider)
      in if provider = ascii ''none''
         then Inr (ascii ''('' @ [0xc694, 0xc57d, 32, 0xbbf8, 0xc0ac, 0xc6a9]
                     @ ascii '': SUMMARY_PROVIDER=none)'')
         else (case json_dumps env (PDict (map (\<lambda>(k, v). (PStr k, v)) payload)) of
                 Inl e \<Rightarrow> Inl e
               | Inr js \<Rightarrow>
                   (let text = truncate_text js 12000
                    in if provider = ascii ''openai'' then Inr (summarize_openai env text)
                       else Inr (ascii ''('' @ [0xc54c, 32, 0xc218, 32, 0xc5c6, 0xb294]
                                   @ ascii '' provider: '' @ provider @ ascii '')''))))"

section \<open>state.py\<close>

text \<open>
  The state file: absent, or a JSON object that may hold a list of strings under
  \<open>seen_keys\<close>. Strings sort by code points, as lists of code points do.
\<close>

datatype seen_file = NoFile | SeenFile "pystr list option"

definition load_seen :: "seen_file \<Rightarrow> pystr fset" where
  "load_seen p =
     (case p of
        NoFile \<Rightarrow> {||}
      | SeenFile None \<Rightarrow> fset_of_list []
      | SeenFile (Some keys) \<Rightarrow> fset_of_list keys)"

definition save_seen :: "pystr fset \<Rightarrow> seen_file" where
  "save_seen seen = SeenFile (Some (sorted_list_of_fset seen))"

section \<open>report.py\<close>

definition endswith :: "pystr \<Rightarrow> pystr \<Rightarrow> bool" where
  "endswith s suffix =
     (length suffix \<le> length s \<and> drop (length s - length suffix) s = suffix)"

text \<open>
  \<open>filename.lower().endswith(".xlsx")\<close>. Only the letters \<open>X\<close>, \<open>L\<close>, \<open>S\<close> lower to a
  letter of \<open>.xlsx\<close>, and no character lowers to a text ending in one, so lowering the
  letters \<open>A-Z\<close> decides the test as \<open>str.lower\<close> does.
\<close>

definition py_lower :: "pystr \<Rightarrow> pystr" where
  "py_lower s = map ascii_lower s"

definition is_xlsx :: "pystr \<Rightarrow> bool" where
  "is_xlsx filename = endswith (py_lower filename) (ascii ''.xlsx'')"

record att_report =
  rep_filename :: pystr
  rep_url :: pystr
  rep_kind :: pystr
  rep_summary :: pystr

datatype DocReport =
  DocReport (dr_org: "pystr option") (dr_nid: pystr) (dr_title: pystr)
    (dr_pub_date: "date option") (dr_doc_url: pystr) (dr_attachments: "att_report list")

section \<open>main.py\<close>

subsection \<open>The status of every quarter\<close>

text \<open>
  A status is one of the strings \<open>OK\<close>, \<open>LATE\<close>, \<open>PENDING\<close>, \<open>MISSING\<close>. The
  dictionaries \<open>found\<close> and \<open>result\<close> are association lists in the order of first
  insertion; assigning to a key that is present replaces its value in place.
\<close>

type_synonym status_key = "pystr \<times> int \<times> int"

text \<open>The status one document gives: an absent publication date counts as on time.\<close>

definition doc_status :: "DocItem \<Rightarrow> date \<Rightarrow> pystr" where
  "doc_status d deadline =
     (case pub_date d of
        None \<Rightarrow> ascii ''OK''
      | Some p \<Rightarrow> if date_le p deadline then ascii ''OK'' else ascii ''LATE'')"

text \<open>
  The first loop, over the documents. \<open>if not org\<close> skips a document when no
  organization matches, or when the matching organization's name is the empty string.
\<close>

fun found_loop ::
  "Org list \<Rightarrow> int \<Rightarrow> DocItem list \<Rightarrow> (status_key \<times> pystr) list
     \<Rightarrow> pyerror + (status_key \<times> pystr) list" where
  "found_loop orgs buffer_days [] found = Inr found"
| "found_loop orgs buffer_days (d # docs) found =
     (case match_org orgs (title d) of
        None \<Rightarrow> found_loop orgs buffer_days docs found
      | Some org \<Rightarrow>
          if org = [] then found_loop orgs buffer_days docs found
          else
            (case extract_year_quarter (title d) of
               (Some y, Some q) \<Rightarrow>
                 (case quarter_deadline y q buffer_days of
                    Inl e \<Rightarrow> Inl e
                  | Inr deadline \<Rightarrow>
                      (let st = doc_status d deadline;
                           key = (org, y, q)
                       in case map_of found key of
                            None \<Rightarrow> found_loop orgs buffer_days docs (found @ [(key, st)])
                          | Some old \<Rightarrow>
                              if old \<noteq> ascii ''OK'' \<and> st = ascii ''OK''
                              then found_loop orgs buffer_days docs
                                     (AList.update key (ascii ''OK'') found)
                              else found_loop orgs buffer_days docs found))
             | _ \<Rightarrow> found_loop orgs buffer_days docs found))"

text \<open>The second loop: every organization of the roster, every reporting quarter.\<close>

fun result_quarters ::
  "(status_key \<times> pystr) list \<Rightarrow> date \<Rightarrow> int \<Rightarrow> pystr \<Rightarrow> YearQuarter list
     \<Rightarrow> (status_key \<times> pystr) list \<Rightarrow> pyerror + (status_key \<times> pystr) list" where
  "result_quarters found today buffer_days name [] result = Inr result"
| "result_quarters found today buffer_days name (yq # quarters) result =
     (let key = (name, yq_year yq, yq_quarter yq)
      in case map_of found key of
           Some st \<Rightarrow>
             result_quarters found today buffer_days name quarters (AList.update key st result)
         | None \<Rightarrow>
             (case quarter_deadline (yq_year yq) (yq_quarter yq) buffer_days of
                Inl e \<Rightarrow> Inl e
              | Inr dl \<Rightarrow>
                  result_quarters found today buffer_days name quarters
                    (AList.update key
                       (if date_le today dl then ascii ''PENDING'' else ascii ''MISSING'') result)))"

fun result_loop ::
  "(status_key \<times> pystr) list \<Rightarrow> date \<Rightarrow> int \<Rightarrow> YearQuarter list \<Rightarrow> Org list
     \<Rightarrow> (status_key \<times> pystr) list \<Rightarrow> pyerror + (status_key \<times> pystr) list" where
  "result_loop found today buffer_days quarters [] result = Inr result"
| "result_loop found today buffer_days quarters (org # orgs) result =
     (case result_quarters found today buffer_days (org_name org) quarters result of
        Inl e \<Rightarrow> Inl e
      | Inr result' \<Rightarrow> result_loop found today buffer_days quarters orgs result')"

definition compute_quarter_status ::
  "Org list \<Rightarrow> DocItem list \<Rightarrow> date \<Rightarrow> int \<Rightarrow> int \<Rightarrow> pyerror + (status_key \<times> pystr) list" where
  "compute_quarter_status orgs docs today buffer_days lookback_count =
     (case found_loop orgs buffer_days docs [] of
        Inl e \<Rightarrow> Inl e
      | Inr found \<Rightarrow>
          (let quarters = report_quarters today
           in result_loop found today buffer_days quarters orgs []))"

subsection \<open>The documents of the month\<close>

definition is_doc_in_month :: "DocItem \<Rightarrow> date \<Rightarrow> date \<Rightarrow> bool" where
  "is_doc_in_month d start end' =
     (case pub_date d of
        None \<Rightarrow> False
      | Some p \<Rightarrow> date_le start p \<and> date_lt p end')"

subsection \<open>The attachments of the month's documents\<close>

text \<open>
  \<open>parse_xlsx_bytes\<close> is a sequence of calls into the spreadsheet library; the run
  takes from it the parsed sheets and statistics, or an exception.
\<close>

record ParsedXlsx =
  sheets :: pyval
  stats :: pyval

record run_env =
  site_of :: site
  parse_xlsx_bytes :: "nat list \<Rightarrow> pyerror + ParsedXlsx"
  summarizer :: summarizer_env

text \<open>\<open>date.isoformat()\<close>, for the years 1..9999 of a \<open>date\<close>.\<close>

definition digit_char :: "int \<Rightarrow> nat" where
  "digit_char n = 48 + nat (n mod 10)"

definition isoformat :: "date \<Rightarrow> pystr" where
  "isoformat dt =
     [digit_char (d_year dt div 1000), digit_char (d_year dt div 100),
      digit_char (d_year dt div 10), digit_char (d_year dt), 45,
      digit_char (d_month dt div 10), digit_char (d_month dt), 45,
      digit_char (d_day dt div 10), digit_char (d_day dt)]"

definition download_bytes :: "site \<Rightarrow> pystr \<Rightarrow> event list \<Rightarrow> (pyerror + nat list) \<times> event list" where
  "download_bytes srv u tr =
     (case srv tr (Href u) of
        Inl e \<Rightarrow> (Inl e, tr @ [Get (Href u)])
      | Inr p \<Rightarrow> (Inr (p_content p), tr @ [Get (Href u)]))"

definition make_payload :: "pystr \<Rightarrow> DocItem \<Rightarrow> Attachment \<Rightarrow> ParsedXlsx \<Rightarrow> (pystr \<times> pyval) list" where
  "make_payload org_name' d a parsed =
     [(ascii ''org'', PStr org_name'),
      (ascii ''nid'', PStr (nid d)),
      (ascii ''title'', PStr (title d)),
      (ascii ''pub_date'', (case pub_date d of Some p \<Rightarrow> PStr (isoformat p) | None \<Rightarrow> PNone)),
      (ascii ''attachment'',
         PDict [(PStr (ascii ''filename''), PStr (att_filename a)),
                (PStr (ascii ''url''), PStr (att_url a))]),
      (ascii ''stats'', stats parsed),
      (ascii ''sheets'', sheets parsed)]"

text \<open>The \<open>try\<close> block of the loop: the summary, or the exception that leaves the block.\<close>

definition try_summary ::
  "run_env \<Rightarrow> pystr \<Rightarrow> pystr \<Rightarrow> DocItem \<Rightarrow> Attachment \<Rightarrow> event list
     \<Rightarrow> (pyerror + pystr) \<times> event list" where
  "try_summary env provider org_name' d a tr =
     (case download_bytes (site_of env) (att_url a) tr of
        (Inl e, tr') \<Rightarrow> (Inl e, tr')
      | (Inr raw, tr') \<Rightarrow>
          (case parse_xlsx_bytes env raw of
             Inl e \<Rightarrow> (Inl e, tr')
           | Inr parsed \<Rightarrow>
               (summarize (summarizer env) provider (make_payload org_name' d a parsed), tr')))"

text \<open>
  One turn of the loop over the attachments: the entry appended to \<open>att_reports\<close>, the
  set \<open>seen\<close> and the events after it.
\<close>

definition process_attachment ::
  "run_env \<Rightarrow> pystr \<Rightarrow> pystr \<Rightarrow> DocItem \<Rightarrow> Attachment \<Rightarrow> pystr fset \<Rightarrow> event list
     \<Rightarrow> att_report \<times> pystr fset \<times> event list" where
  "process_attachment env provider org_name' d a seen tr =
     (let key = nid d @ ascii ''|'' @ att_url a
      in if \<not> is_xlsx (att_filename a)
         then (\<lparr>rep_filename = att_filename a, rep_url = att_url a,
                 rep_kind = ascii ''unsupported'', rep_summary = []\<rparr>,
               finsert key seen, tr)
         else if key |\<in>| seen
         then (\<lparr>rep_filename = att_filename a, rep_url = att_url a,
                 rep_kind = ascii ''xlsx'', rep_summary = []\<rparr>, seen, tr)
         else
           (case try_summary env provider org_name' d a tr of
              (r, tr') \<Rightarrow>
                (let summary_text =
                       (case r of
                          Inr s \<Rightarrow> s
                        | Inl e \<Rightarrow>
                            ascii ''(xlsx '' @ [0xcc98, 0xb9ac, 32, 0xc2e4, 0xd328] @ ascii '': ''
                              @ exc_text (summarizer env) e @ ascii '')'')
                 in (\<lparr>rep_filename = att_filename a, rep_url = att_url a,
                       rep_kind = ascii ''xlsx'', rep_summary = summary_text\<rparr>,
                     finsert key seen, tr'))))"

fun process_attachments ::
  "run_env \<Rightarrow> pystr \<Rightarrow> pystr \<Rightarrow> DocItem \<Rightarrow> Attachment list \<Rightarrow> att_report list
     \<Rightarrow> pystr fset \<Rightarrow> event list \<Rightarrow> att_report list \<times> pystr fset \<times> event list" where
  "process_attachments env provider org_name' d [] att_reports seen tr = (att_reports, seen, tr)"
| "process_attachments env provider org_name' d (a # atts) att_reports seen tr =
     (case process_attachment env provider org_name' d a seen tr of
        (rep, seen', tr') \<Rightarrow>
          process_attachments env provider org_name' d atts (att_reports @ [rep]) seen' tr')"

text \<open>
  The loop over the documents of the month. An exception of \<open>fetch_attachments\<close> is not
  caught: it ends the run.
\<close>

fun process_docs ::
  "run_env \<Rightarrow> pystr \<Rightarrow> Org list \<Rightarrow> DocItem list \<Rightarrow> DocReport list \<Rightarrow> pystr fset \<Rightarrow> event list
     \<Rightarrow> pyerror + (DocReport list \<times> pystr fset \<times> event list)" where
  "process_docs env provider orgs [] doc_reports seen tr = Inr (doc_reports, seen, tr)"
| "process_docs env provider orgs (d # month_docs) doc_reports seen tr =
     (case match_org orgs (title d) of
        None \<Rightarrow> process_docs env provider orgs month_docs doc_reports seen tr
      | Some org_name' \<Rightarrow>
          if org_name' = [] then process_docs env provider orgs month_docs doc_reports seen tr
          else
            (case fetch_attachments (site_of env) (nid d) tr of
               (Inl e, tr') \<Rightarrow> Inl e
             | (Inr atts, tr') \<Rightarrow>
                 (case process_attachments env provider org_name' d atts [] seen tr' of
                    (att_reports, seen', tr'') \<Rightarrow>
                      process_docs env provider orgs month_docs
                        (doc_reports @
                           [DocReport (Some org_name') (nid d) (title d) (pub_date d) (doc_url d)
                              att_reports])
                        seen' tr'')))"

text \<open>
  The run, from the settings, the roster, the time and the state file to what it hands
  to the report and the state file it writes. Iterating over the \<open>None\<close> that
  \<open>fetch_docs_all\<close> may return raises \<open>TypeError\<close>. The rendering of the report and its
  file are not part of the model.
\<close>

record Settings =
  opengov_max_pages :: int
  opengov_stop_after_empty :: int
  quarter_buffer_days :: int
  quarter_lookback_count :: int
  summary_provider :: pystr

record run_result =
  res_doc_reports :: "DocReport list"
  res_quarter_status :: "(status_key \<times> pystr) list"
  res_seen_file :: seen_file
  res_events :: "event list"

definition main ::
  "run_env \<Rightarrow> Settings \<Rightarrow> Org list \<Rightarrow> date \<Rightarrow> seen_file \<Rightarrow> pyerror + run_result" where
  "main env s orgs kst_now state =
     (let target_ym = prev_month kst_now
      in case month_range target_ym of
           Inl e \<Rightarrow> Inl e
         | Inr (month_start, month_end) \<Rightarrow>
             (let seen = load_seen state
              in case fetch_docs_all (site_of env) target_ym (opengov_max_pages s)
                        (opengov_stop_after_empty s) 50 [] of
                   (None, tr) \<Rightarrow> Inl TypeError
                 | (Some docs, tr) \<Rightarrow>
                     (let month_docs = filter (\<lambda>d. is_doc_in_month d month_start month_end) docs
                      in case compute_quarter_status orgs docs kst_now (quarter_buffer_days s)
                                (quarter_lookback_count s) of
                           Inl e \<Rightarrow> Inl e
                         | Inr quarter_status \<Rightarrow>
                             (case process_docs env (summary_provider s) orgs month_docs [] seen tr of
                                Inl e \<Rightarrow> Inl e
                              | Inr (doc_reports, seen', tr') \<Rightarrow>
                                  Inr \<lparr>res_doc_reports = doc_reports,
                                       res_quarter_status = quarter_status,
                                       res_seen_file = save_seen seen',
                                       res_events = tr'\<rparr>))))"

section \<open>An example run\<close>

text \<open>
  A small site: the first list page has two rows, the document 101 of the first quarter
  with a date in April 2025 and the document 102 of the second quarter with no date;
  every other list page has no rows; the detail page of a document links one
  spreadsheet. The roster holds one organization.
\<close>

definition ex_soup :: "row list \<Rightarrow> link list \<Rightarrow> page" where
  "ex_soup rs ls =
     \<lparr>p_soup = \<lparr>total_strong = None, page_text = [], table_rows = rs, download_links = ls\<rparr>,
      p_content = []\<rparr>"

definition ex_row :: "string \<Rightarrow> pystr \<Rightarrow> string \<Rightarrow> row" where
  "ex_row h t x =
     \<lparr>r_anchor = Some \<lparr>a_href = ascii h, a_text = t, a_abs = ascii ''https://opengov.seoul.go.kr'' @ ascii h\<rparr>,
      r_text = t @ ascii x\<rparr>"

definition ex_title1 :: pystr where
  "ex_title1 = ascii ''Seoul Metro 2025'' @ [0xb144, 32, 49, 0xbd84, 0xae30]"

definition ex_title2 :: pystr where
  "ex_title2 = ascii ''Seoul Metro 2025'' @ [0xb144, 32, 50, 0xbd84, 0xae30]"

definition ex_rows :: "row list" where
  "ex_rows = [ex_row ''/public/101'' ex_title1 '' 2025-04-10'',
              ex_row ''/public/102'' ex_title2 '''']"

definition ex_docs :: "DocItem list" where
  "ex_docs =
     [DocItem (ascii ''101'') ex_title1 (Some (Date 2025 4 10))
        (ascii ''https://opengov.seoul.go.kr/public/101''),
      DocItem (ascii ''102'') ex_title2 None
        (ascii ''https://opengov.seoul.go.kr/public/102'')]"

definition ex_site :: site where
  "ex_site tr u =
     (case u of
        ListPage i y p \<Rightarrow>
          if p = 1
          then Inr (ex_soup ex_rows [])
          else Inr (ex_soup [] [])
      | DetailPage n \<Rightarrow>
          Inr (ex_soup [] [\<lparr>l_abs = ascii ''https://opengov.seoul.go.kr/f/'' @ n, l_dname = Some (ascii ''a.xlsx''),
                              l_uri = None, l_text = []\<rparr>])
      | Href h \<Rightarrow> Inr (ex_soup [] []))"

text \<open>
  The summarizer of the example: no API key, a request that raises, and a \<open>json.dumps\<close>
  that raises \<open>TypeError\<close> for a payload holding a value of another type than the JSON
  ones (or a dictionary key that is not a string, a number, a boolean or \<open>None\<close>), as
  the library does; for the small payloads of the example it returns a text, which plays
  no part. Its \<open>str.lower\<close> is the one of ASCII letters, which is \<open>str.lower\<close> on the
  provider names of the example.
\<close>

definition json_key_ok :: "pyval \<Rightarrow> bool" where
  "json_key_ok k =
     (case k of PNone \<Rightarrow> True | PBool b \<Rightarrow> True | PInt i \<Rightarrow> True | PFloat f \<Rightarrow> True
      | PStr s \<Rightarrow> True | _ \<Rightarrow> False)"

primrec json_serializable :: "pyval \<Rightarrow> bool" where
  "json_serializable PNone = True"
| "json_serializable (PBool b) = True"
| "json_serializable (PInt i) = True"
| "json_serializable (PFloat f) = True"
| "json_serializable (PStr s) = True"
| "json_serializable (PList vs) = list_all id (map json_serializable vs)"
| "json_serializable (PDict kvs) =
     list_all (\<lambda>kv. json_key_ok (fst kv) \<and> snd kv) (map (map_prod id json_serializable) kvs)"
| "json_serializable (PObject r) = False"

definition ex_json_dumps :: "pyval \<Rightarrow> pyerror + pystr" where
  "ex_json_dumps v = (if json_serializable v then Inr (ascii ''{}'') else Inl TypeError)"

definition ex_summarizer :: summarizer_env where
  "ex_summarizer =
     \<lparr>json_dumps = ex_json_dumps, str_lower = py_lower, OPENAI_API_KEY = [], OPENAI_MODEL = [],
      openai_request = (\<lambda>k m t. Inl RequestException),
      exc_text = (\<lambda>e. ascii ''error'')\<rparr>"

definition ex_env :: run_env where
  "ex_env =
     \<lparr>site_of = ex_site,
      parse_xlsx_bytes = (\<lambda>b. Inr \<lparr>sheets = PDict [], stats = PDict []\<rparr>),
      summarizer = ex_summarizer\<rparr>"

definition ex_settings :: Settings where
  "ex_settings =
     \<lparr>opengov_max_pages = 5, opengov_stop_after_empty = 2, quarter_buffer_days = 30,
      quarter_lookback_count = 8, summary_provider = ascii ''none''\<rparr>"

definition ex_orgs :: "Org list" where
  "ex_orgs = [Org (ascii ''Seoul Metro'') (norm_text (ascii ''Seoul Metro''))]"

section \<open>Notions for the statements about the crawl\<close>

text \<open>An association list whose keys are distinct and are the \<open>nid\<close> of their documents.\<close>

definition nid_keyed :: "(pystr \<times> DocItem) list \<Rightarrow> bool" where
  "nid_keyed docs = (distinct (map fst docs) \<and> (\<forall>kv \<in> set docs. nid (snd kv) = fst kv))"


text \<open>The addresses requested, in order.\<close>

fun requests_of :: "event list \<Rightarrow> url list" where
  "requests_of [] = []"
| "requests_of (Get u # evs) = u # requests_of evs"
| "requests_of (ev # evs) = requests_of evs"





section \<open>Notions for the statements about the quarter status\<close>

text \<open>
  The key a document is an observation for, as the first loop of
  \<open>compute_quarter_status\<close> finds it: the organization matched in the title and the
  year and quarter extracted from it.
\<close>

definition observation :: "Org list \<Rightarrow> DocItem \<Rightarrow> status_key option" where
  "observation orgs d =
     (case match_org orgs (title d) of
        None \<Rightarrow> None
      | Some org \<Rightarrow>
          if org = [] then None
          else (case extract_year_quarter (title d) of
                  (Some y, Some q) \<Rightarrow> Some (org, y, q)
                | _ \<Rightarrow> None))"

text \<open>An observation resolves \<open>OK\<close>: no publication date, or one not after the deadline.\<close>

definition resolves_ok :: "int \<Rightarrow> DocItem \<Rightarrow> status_key \<Rightarrow> bool" where
  "resolves_ok buffer_days d key =
     (case pub_date d of
        None \<Rightarrow> True
      | Some p \<Rightarrow>
          (case quarter_deadline (fst (snd key)) (snd (snd key)) buffer_days of
             Inl e \<Rightarrow> False
           | Inr dl \<Rightarrow> date_le p dl))"

text \<open>The keys of the report: every organization of the roster with every reporting quarter.\<close>

definition report_keys :: "Org list \<Rightarrow> date \<Rightarrow> status_key set" where
  "report_keys orgs today =
     (\<lambda>(org, yq). (org_name org, yq_year yq, yq_quarter yq)) ` (set orgs \<times> set (report_quarters today))"

text \<open>The value the first loop holds for a key, from the value it started with.\<close>

definition merged :: "Org list \<Rightarrow> int \<Rightarrow> DocItem list \<Rightarrow> status_key \<Rightarrow> pystr option \<Rightarrow> pystr option" where
  "merged orgs b docs key start =
     (if start = Some (ascii ''OK'') then start
      else if \<exists>d \<in> set docs. observation orgs d = Some key \<and> resolves_ok b d key
      then Some (ascii ''OK'')
      else if start \<noteq> None then start
      else if \<exists>d \<in> set docs. observation orgs d = Some key then Some (ascii ''LATE'')
      else None)"

text \<open>The value the second loop writes for a key.\<close>

definition result_value ::
  "(status_key \<times> pystr) list \<Rightarrow> date \<Rightarrow> int \<Rightarrow> status_key \<Rightarrow> pyerror + pystr" where
  "result_value found today b key =
     (case map_of found key of
        Some st \<Rightarrow> Inr st
      | None \<Rightarrow>
          (case quarter_deadline (fst (snd key)) (snd (snd key)) b of
             Inl e \<Rightarrow> Inl e
           | Inr dl \<Rightarrow> Inr (if date_le today dl then ascii ''PENDING'' else ascii ''MISSING'')))"

section \<open>Notions for the statements about the loose date\<close>

text \<open>
  The claim's reading of the pattern, for comparison with the program's: at the start of
  \<open>s\<close>, four digits, a separator, \<open>k\<close> digits, the same separator again and \<open>j\<close> digits
  that together form a calendar date; and a text that contains such a date at some
  position, with one or two digits for the month and for the day.
\<close>

definition spec_date_at :: "pystr \<Rightarrow> nat \<Rightarrow> nat \<Rightarrow> bool" where
  "spec_date_at s k j =
     (6 + k + j \<le> length s \<and> list_all is_digit (take 4 s) \<and> is_date_sep (s ! 4)
      \<and> list_all is_digit (take k (drop 5 s)) \<and> s ! (5 + k) = s ! 4
      \<and> list_all is_digit (take j (drop (6 + k) s))
      \<and> \<not> isl (py_date (int_of_digits (take 4 s)) (int_of_digits (take k (drop 5 s)))
                  (int_of_digits (take j (drop (6 + k) s)))))"

fun spec_contains_date :: "pystr \<Rightarrow> bool" where
  "spec_contains_date [] = False"
| "spec_contains_date (c # cs) =
     (spec_date_at (c # cs) 1 1 \<or> spec_date_at (c # cs) 1 2 \<or> spec_date_at (c # cs) 2 1
      \<or> spec_date_at (c # cs) 2 2 \<or> spec_contains_date cs)"

text \<open>
  The program's pattern, declaratively: \<open>t\<close> starts with four digits \<open>y\<close>, a separator,
  one or two digits \<open>mo\<close>, a separator (any of the three) and one or two digits \<open>d\<close>,
  the day taking a second digit whenever one follows.
\<close>

definition date_shape :: "pystr \<Rightarrow> pystr \<Rightarrow> pystr \<Rightarrow> pystr \<Rightarrow> bool" where
  "date_shape t y mo d =
     (\<exists>s1 s2 rest.
        t = y @ [s1] @ mo @ [s2] @ d @ rest
        \<and> length y = 4 \<and> list_all is_digit y \<and> is_date_sep s1
        \<and> (length mo = 1 \<or> length mo = 2) \<and> list_all is_digit mo \<and> is_date_sep s2
        \<and> (length d = 1 \<or> length d = 2) \<and> list_all is_digit d
        \<and> (length d = 1 \<longrightarrow> rest = [] \<or> \<not> is_digit (hd rest)))"

text \<open>The first match of a pattern in \<open>s\<close>: at the leftmost position where one starts.\<close>

definition first_match :: "(pystr \<Rightarrow> bool) \<Rightarrow> pystr \<Rightarrow> pystr \<Rightarrow> bool" where
  "first_match starts s t =
     (\<exists>pre. s = pre @ t \<and> starts t
        \<and> (\<forall>pre' t'. s = pre' @ t' \<and> length pre' < length pre \<longrightarrow> \<not> starts t'))"

section \<open>Properties of the quarter calculator\<close>

lemma upto_1_4: "[1..4] = [1, 2, 3, 4::int]"
  by (simp add: upto_rec1)

text \<open>
  C8. For every date \<open>today\<close>, \<open>report_quarters today\<close> is the list of exactly four
  quarters Q1, Q2, Q3, Q4, in that order, all of one target year: \<open>today.year - 1\<close> when
  \<open>today.month \<le> 2\<close> and \<open>today.year\<close> otherwise. The day of \<open>today\<close>, and so how
  many quarters have elapsed, plays no part.
\<close>

theorem report_quarters_four_fixed:
  "report_quarters today =
     (let ty = (if d_month today \<le> 2 then d_year today - 1 else d_year today)
      in [YearQuarter ty 1, YearQuarter ty 2, YearQuarter ty 3, YearQuarter ty 4])
   \<and> length (report_quarters today) = 4
   \<and> report_quarters (Date (d_year today) (d_month today) dd) = report_quarters today"
  by (simp add: report_quarters_def Let_def upto_1_4)

section \<open>Events of the run\<close>

lemma get_soup_events: "snd (get_soup srv u tr) = tr @ [Get u]"
  by (simp add: get_soup_def split: sum.splits)

lemma get_soup_cases:
  obtains r where "get_soup srv u tr = (r, tr @ [Get u])"
  using get_soup_events [of srv u tr] by (cases "get_soup srv u tr") simp

lemma crawl_pages_detail:
  "crawl_pages srv ty sae ps tr docs st = (docs', tr') \<Longrightarrow> Get (DetailPage n) \<in> set tr'
     \<Longrightarrow> Get (DetailPage n) \<in> set tr"
proof (induction ps arbitrary: tr docs st)
  case Nil
  then show ?case by simp
next
  case (Cons p ps)
  obtain r where g: "get_soup srv (list_page_url ty p 50) tr = (r, tr @ [Get (list_page_url ty p 50)])"
    by (rule get_soup_cases)
  show ?case
  proof (cases r)
    case (Inl e)
    with Cons.prems g have "Get (DetailPage n) \<in> set ((tr @ [Get (list_page_url ty p 50)]) @ [SleepFixed])"
      by (auto dest: Cons.IH)
    then show ?thesis by (simp add: list_page_url_def)
  next
    case (Inr sp)
    with Cons.prems g have "Get (DetailPage n) \<in> set (tr @ [Get (list_page_url ty p 50)])
        \<or> Get (DetailPage n) \<in> set ((tr @ [Get (list_page_url ty p 50)]) @ [SleepPolite])"
      by (auto split: if_splits dest: Cons.IH)
    then show ?thesis by (auto simp add: list_page_url_def)
  qed
qed

text \<open>The two ways through \<open>fetch_docs_all\<close>.\<close>

lemma fetch_docs_all_cases:
  fixes ym :: YearMonth
  defines "ty \<equiv> (if ym_month ym \<le> 2 then ym_year ym - 1 else ym_year ym)"
  obtains (raised) e where
      "get_soup srv (list_page_url ty 1 ipp) tr = (Inl e, tr @ [Get (list_page_url ty 1 ipp)])"
      "fetch_docs_all srv ym mpf sae ipp tr = (None, tr @ [Get (list_page_url ty 1 ipp)])"
    | (crawled) sp mp docs tr' where
      "get_soup srv (list_page_url ty 1 ipp) tr = (Inr sp, tr @ [Get (list_page_url ty 1 ipp)])"
      "fetch_total_count srv ipp ty tr = (Inr None, tr @ [Get (list_page_url ty 1 ipp)]) \<and> mp = mpf
         \<or> (\<exists>t. fetch_total_count srv ipp ty tr = (Inr (Some t), tr @ [Get (list_page_url ty 1 ipp)])
                \<and> mp = compute_max_pages t ipp)"
      "crawl_pages srv ty sae [1..mp] (tr @ [Get (list_page_url ty 1 ipp)]) [] 0 = (docs, tr')"
      "fetch_docs_all srv ym mpf sae ipp tr = (Some (map snd docs), tr')"
proof -
  obtain r where g: "get_soup srv (list_page_url ty 1 ipp) tr = (r, tr @ [Get (list_page_url ty 1 ipp)])"
    by (rule get_soup_cases)
  show thesis
  proof (cases r)
    case (Inl e)
    with g have "fetch_docs_all srv ym mpf sae ipp tr = (None, tr @ [Get (list_page_url ty 1 ipp)])"
      by (simp add: fetch_docs_all_def fetch_total_count_def Let_def ty_def)
    with g Inl show ?thesis by (auto intro: raised)
  next
    case (Inr sp)
    with g have "\<exists>tot. fetch_total_count srv ipp ty tr = (Inr tot, tr @ [Get (list_page_url ty 1 ipp)])"
      by (simp add: fetch_total_count_def split: option.splits)
    then obtain tot where tot: "fetch_total_count srv ipp ty tr = (Inr tot, tr @ [Get (list_page_url ty 1 ipp)])"
      by blast
    define mp where "mp = (case tot of None \<Rightarrow> mpf | Some t \<Rightarrow> compute_max_pages t ipp)"
    obtain docs tr' where c: "crawl_pages srv ty sae [1..mp] (tr @ [Get (list_page_url ty 1 ipp)]) [] 0 = (docs, tr')"
      by (cases "crawl_pages srv ty sae [1..mp] (tr @ [Get (list_page_url ty 1 ipp)]) [] 0") auto
    have f: "fetch_docs_all srv ym mpf sae ipp tr = (Some (map snd docs), tr')"
      using tot c by (simp add: fetch_docs_all_def Let_def ty_def mp_def)
    have m: "fetch_total_count srv ipp ty tr = (Inr None, tr @ [Get (list_page_url ty 1 ipp)]) \<and> mp = mpf
         \<or> (\<exists>t. fetch_total_count srv ipp ty tr = (Inr (Some t), tr @ [Get (list_page_url ty 1 ipp)])
                \<and> mp = compute_max_pages t ipp)"
      using tot by (cases tot) (auto simp: mp_def)
    from g Inr m c f show ?thesis by (auto intro: crawled)
  qed
qed

lemma fetch_docs_all_detail:
  assumes "fetch_docs_all srv ym mpf sae ipp tr = (r, tr')" "Get (DetailPage n) \<in> set tr'"
  shows "Get (DetailPage n) \<in> set tr"
proof (cases rule: fetch_docs_all_cases [of srv ym ipp tr mpf sae])
  case (raised e)
  with assms show ?thesis by (auto simp: list_page_url_def)
next
  case (crawled sp mp docs tr'')
  with assms have "Get (DetailPage n) \<in> set tr''" by simp
  from crawl_pages_detail [OF crawled(3) this] show ?thesis by (auto simp: list_page_url_def)
qed

lemma process_attachment_detail:
  "process_attachment env pr org d a seen tr = (rep, seen', tr')
     \<Longrightarrow> Get (DetailPage n) \<in> set tr' \<Longrightarrow> Get (DetailPage n) \<in> set tr"
  by (auto simp: process_attachment_def try_summary_def download_bytes_def Let_def
      split: if_splits sum.splits prod.splits)

lemma process_attachments_detail:
  "process_attachments env pr org d atts reps seen tr = (reps', seen', tr')
     \<Longrightarrow> Get (DetailPage n) \<in> set tr' \<Longrightarrow> Get (DetailPage n) \<in> set tr"
proof (induction atts arbitrary: reps seen tr)
  case Nil
  then show ?case by simp
next
  case (Cons a atts)
  obtain rep s1 t1 where pa: "process_attachment env pr org d a seen tr = (rep, s1, t1)"
    by (cases "process_attachment env pr org d a seen tr") auto
  with Cons.prems have "process_attachments env pr org d atts (reps @ [rep]) s1 t1 = (reps', seen', tr')"
    by simp
  from Cons.IH [OF this Cons.prems(2)] have "Get (DetailPage n) \<in> set t1" .
  with process_attachment_detail [OF pa] show ?case by blast
qed

lemma fetch_attachments_events:
  "snd (fetch_attachments srv n tr) = tr @ [Get (DetailPage n)]"
  using get_soup_events [of srv "DetailPage n" tr]
  by (auto simp: fetch_attachments_def Let_def split: prod.splits sum.splits)

lemma process_docs_reports:
  "process_docs env pr orgs docs reps seen tr = Inr (reps', seen', tr') \<Longrightarrow>
     (\<forall>dr \<in> set reps'. dr \<in> set reps \<or> (\<exists>d \<in> set docs. dr_nid dr = nid d \<and> dr_pub_date dr = pub_date d))
     \<and> (\<forall>n. Get (DetailPage n) \<in> set tr' \<longrightarrow>
            Get (DetailPage n) \<in> set tr \<or> (\<exists>d \<in> set docs. nid d = n))"
proof (induction docs arbitrary: reps seen tr)
  case Nil
  then show ?case by simp
next
  case (Cons d docs)
  show ?case
  proof (cases "match_org orgs (title d) = None \<or> match_org orgs (title d) = Some []")
    case True
    with Cons.prems have "process_docs env pr orgs docs reps seen tr = Inr (reps', seen', tr')"
      by auto
    from Cons.IH [OF this] show ?thesis by auto
  next
    case False
    then obtain org where org: "match_org orgs (title d) = Some org" "org \<noteq> []" by auto
    obtain r t1 where fa: "fetch_attachments (site_of env) (nid d) tr = (r, t1)"
      by (cases "fetch_attachments (site_of env) (nid d) tr") auto
    then have t1: "t1 = tr @ [Get (DetailPage (nid d))]"
      using fetch_attachments_events [of "site_of env" "nid d" tr] by simp
    from Cons.prems org fa obtain atts where atts: "r = Inr atts"
      by (cases r) auto
    obtain ar s2 t2 where pa: "process_attachments env pr org d atts [] seen t1 = (ar, s2, t2)"
      by (cases "process_attachments env pr org d atts [] seen t1") auto
    with Cons.prems org fa atts
    have rec: "process_docs env pr orgs docs
        (reps @ [DocReport (Some org) (nid d) (title d) (pub_date d) (doc_url d) ar]) s2 t2
          = Inr (reps', seen', tr')" by simp
    have t2: "\<And>n. Get (DetailPage n) \<in> set t2 \<Longrightarrow> Get (DetailPage n) \<in> set t1"
      using pa by (rule process_attachments_detail)
    from Cons.IH [OF rec] t2 t1 show ?thesis by fastforce
  qed
qed

section \<open>The documents the crawl returns\<close>

lemma add_row_keyed: "nid_keyed docs \<Longrightarrow> nid_keyed (add_row docs tr)"
  by (auto simp: nid_keyed_def add_row_def Let_def map_of_eq_None_iff
      split: option.splits)

lemma foldl_add_row_keyed: "nid_keyed docs \<Longrightarrow> nid_keyed (foldl add_row docs rs)"
  by (induction rs arbitrary: docs) (auto simp: add_row_keyed)

lemma crawl_pages_keyed:
  "crawl_pages srv ty sae ps tr docs st = (docs', tr') \<Longrightarrow> nid_keyed docs \<Longrightarrow> nid_keyed docs'"
proof (induction ps arbitrary: tr docs st)
  case Nil
  then show ?case by simp
next
  case (Cons p ps)
  obtain r where g: "get_soup srv (list_page_url ty p 50) tr = (r, tr @ [Get (list_page_url ty p 50)])"
    by (rule get_soup_cases)
  show ?case
  proof (cases r)
    case (Inl e)
    with Cons.prems g show ?thesis by (auto dest: Cons.IH)
  next
    case (Inr sp)
    with Cons.prems g show ?thesis
      by (auto split: if_splits dest: Cons.IH simp: foldl_add_row_keyed)
  qed
qed

lemma fetch_docs_all_distinct:
  assumes "fetch_docs_all srv ym mpf sae ipp tr = (Some docs, tr')"
  shows "distinct (map nid docs)"
proof (cases rule: fetch_docs_all_cases [of srv ym ipp tr mpf sae])
  case (raised e)
  with assms show ?thesis by simp
next
  case (crawled sp mp dbn tr'')
  have "nid_keyed dbn"
    using crawl_pages_keyed [OF crawled(3)] by (simp add: nid_keyed_def)
  then have "map (\<lambda>kv. nid (snd kv)) dbn = map fst dbn" and "distinct (map fst dbn)"
    by (simp_all add: nid_keyed_def map_eq_conv)
  then have "distinct (map (\<lambda>kv. nid (snd kv)) dbn)" by (simp only:)
  moreover from crawled assms have "docs = map snd dbn" by simp
  ultimately show ?thesis by (simp add: comp_def)
qed

lemma main_cases:
  assumes "main env s orgs now state = Inr r"
  obtains month_start month_end docs tr qs seen' tr' where
    "month_range (prev_month now) = Inr (month_start, month_end)"
    "fetch_docs_all (site_of env) (prev_month now) (opengov_max_pages s)
       (opengov_stop_after_empty s) 50 [] = (Some docs, tr)"
    "compute_quarter_status orgs docs now (quarter_buffer_days s) (quarter_lookback_count s) = Inr qs"
    "process_docs env (summary_provider s) orgs
       (filter (\<lambda>d. is_doc_in_month d month_start month_end) docs) [] (load_seen state) tr
         = Inr (res_doc_reports r, seen', tr')"
    "res_quarter_status r = qs" "res_seen_file r = save_seen seen'" "res_events r = tr'"
  using assms unfolding main_def Let_def
  by (auto split: sum.splits prod.splits option.splits)

text \<open>
  C10. A document without a publication date is never a document of the month:
  \<open>is_doc_in_month\<close> is false for it, whatever the month, so the filter of \<open>main\<close> drops
  it; in a run that ends normally no report entry is made for it and its detail page
  (the page of its attachments) is never requested. For the status of its quarter the
  same document counts as on time, whatever the deadline.
\<close>

theorem absent_pub_date_never_in_month:
  assumes "pub_date d = None"
  shows "\<not> is_doc_in_month d start end'
       \<and> d \<notin> set (filter (\<lambda>d. is_doc_in_month d start end') docs)
       \<and> doc_status d deadline = ascii ''OK''
       \<and> (\<forall>r crawled tr.
             main env s orgs now state = Inr r
             \<and> fetch_docs_all (site_of env) (prev_month now) (opengov_max_pages s)
                  (opengov_stop_after_empty s) 50 [] = (Some crawled, tr)
             \<and> d \<in> set crawled
             \<longrightarrow> Get (DetailPage (nid d)) \<notin> set (res_events r)
                 \<and> (\<forall>dr \<in> set (res_doc_reports r). dr_nid dr \<noteq> nid d))"
proof -
  have a: "\<not> is_doc_in_month d start end'" for start end'
    using assms by (simp add: is_doc_in_month_def)
  have b: "doc_status d deadline = ascii ''OK''"
    using assms by (simp add: doc_status_def)
  have c: "Get (DetailPage (nid d)) \<notin> set (res_events r)
         \<and> (\<forall>dr \<in> set (res_doc_reports r). dr_nid dr \<noteq> nid d)"
    if m: "main env s orgs now state = Inr r"
      and f: "fetch_docs_all (site_of env) (prev_month now) (opengov_max_pages s)
                  (opengov_stop_after_empty s) 50 [] = (Some crawled, tr)"
      and d: "d \<in> set crawled" for r crawled tr
  proof -
    from m obtain month_start month_end docs tr0 seen' tr' where
      f': "fetch_docs_all (site_of env) (prev_month now) (opengov_max_pages s)
         (opengov_stop_after_empty s) 50 [] = (Some docs, tr0)"
      and p: "process_docs env (summary_provider s) orgs
         (filter (\<lambda>d. is_doc_in_month d month_start month_end) docs) [] (load_seen state) tr0
           = Inr (res_doc_reports r, seen', tr')"
      and e: "res_events r = tr'"
      by (rule main_cases)
    from f f' have eq: "docs = crawled" "tr0 = tr" by simp_all
    have dist: "distinct (map nid crawled)" using f by (rule fetch_docs_all_distinct)
    have none: "d' \<in> set (filter (\<lambda>d. is_doc_in_month d month_start month_end) crawled)
                 \<Longrightarrow> nid d' \<noteq> nid d" for d'
    proof
      assume d': "d' \<in> set (filter (\<lambda>d. is_doc_in_month d month_start month_end) crawled)"
        and n: "nid d' = nid d"
      then have "d' \<in> set crawled" by simp
      with d n dist have "d' = d" by (meson distinct_map inj_onD)
      with d' a show False by simp
    qed
    have tr: "Get (DetailPage (nid d)) \<notin> set tr"
      using fetch_docs_all_detail [OF f] by auto
    from process_docs_reports [OF p [unfolded eq]] none tr e show ?thesis
      by fastforce
  qed
  from a b c show ?thesis by simp
qed

section \<open>Evaluation of the running example\<close>

lemma ascii_Nil_iff [simp]: "(ascii s = []) = (s = [])"
  by (simp add: ascii_def)

lemma digit_value_low:
  "c < 0x660 \<Longrightarrow> digit_value c = (if 48 \<le> c \<and> c \<le> 57 then Some (c - 48) else None)"
  by (simp add: digit_value_def DIGIT_ZEROS_def)

lemma is_digit_low: "c < 0x660 \<Longrightarrow> is_digit c = (48 \<le> c \<and> c \<le> 57)"
  by (simp add: is_digit_def digit_value_low)

lemmas date_eval =
  py_date_def MINYEAR_def MAXYEAR_def days_in_month_def DAYS_IN_MONTH_def is_leap_def

lemmas parse_date_eval =
  parse_date_loose_def date_re_at_def digits_n_def sep_then_def is_date_sep_def
  is_digit_low digit_value_low int_of_digits_def ascii_def date_eval

lemma ex_title_date: "parse_date_loose (ex_title1 @ ascii '' 2025-04-10'') = Some (Date 2025 4 10)"
  by (simp add: parse_date_eval ex_title1_def)

lemma ex_title_nodate: "parse_date_loose (ex_title2 @ ascii '''') = None"
  by (simp add: parse_date_eval ex_title2_def)

lemma ex_nid:
  "re_search nid_re_at (ascii ''/public/101'') = Some (ascii ''101'')"
  "re_search nid_re_at (ascii ''/public/102'') = Some (ascii ''102'')"
  by (simp_all add: nid_re_at_def ascii_def is_digit_low)

lemma ex_strip: "py_strip ex_title1 = ex_title1" "py_strip ex_title2 = ex_title2"
  by (simp_all add: py_strip_def ex_title1_def ex_title2_def ascii_def is_space_def)

lemma ex_rows_docs:
  "foldl add_row [] ex_rows =
     [(ascii ''101'', DocItem (ascii ''101'') ex_title1 (Some (Date 2025 4 10))
              (ascii ''https://opengov.seoul.go.kr/public/101'')),
      (ascii ''102'', DocItem (ascii ''102'') ex_title2 None
              (ascii ''https://opengov.seoul.go.kr/public/102''))]"
  by (simp add: ex_rows_def add_row_def ex_row_def ex_nid ex_strip ex_title_date ex_title_nodate
      Let_def)
     (simp add: ascii_def)

lemma ex_rows_nonempty: "ex_rows \<noteq> []"
  by (simp add: ex_rows_def)

lemma ex_crawl:
  "fetch_docs_all ex_site (YearMonth 2025 4) 5 2 50 [] =
     (Some ex_docs,
      [Get (ListPage 50 2025 1), Get (ListPage 50 2025 1), SleepPolite,
       Get (ListPage 50 2025 2), Get (ListPage 50 2025 3)])"
proof -
  have p: "fetch_total_count ex_site 50 2025 [] = (Inr None, [Get (ListPage 50 2025 1)])"
    by (simp add: fetch_total_count_def get_soup_def list_page_url_def ex_site_def ex_soup_def
        count_re_at_def)
  have c: "crawl_pages ex_site 2025 2 [1, 2, 3, 4, 5] [Get (ListPage 50 2025 1)] [] 0 =
     (foldl add_row [] ex_rows,
      [Get (ListPage 50 2025 1), Get (ListPage 50 2025 1), SleepPolite,
       Get (ListPage 50 2025 2), Get (ListPage 50 2025 3)])"
    by (simp add: get_soup_def list_page_url_def ex_site_def ex_soup_def ex_rows_nonempty)
  have u: "[1..5] = [1, 2, 3, 4, 5::int]" by (simp add: upto_rec1)
  show ?thesis
    by (simp add: fetch_docs_all_def p c u ex_rows_docs ex_docs_def del: crawl_pages.simps)
qed

lemma ex_match:
  "match_org ex_orgs ex_title1 = Some (ascii ''Seoul Metro'')"
  "match_org ex_orgs ex_title2 = Some (ascii ''Seoul Metro'')"
  by (simp_all add: match_org_def ex_orgs_def norm_text_def norm_keep_def ascii_lower_def
      ex_title1_def ex_title2_def ascii_def)

lemma ex_quarter:
  "extract_year_quarter ex_title1 = (Some 2025, Some 1)"
  "extract_year_quarter ex_title2 = (Some 2025, Some 2)"
  by (simp_all add: extract_year_quarter_def q_re_at_def quarter_tail_def digits_n_def
      is_digit_low digit_value_low is_space_def int_of_digits_def ex_title1_def ex_title2_def
      ascii_def)

lemmas deadline_eval =
  quarter_deadline_def quarter_end_date_def date_eval date_add_days_def toordinal_def
  ymd2ord_def days_before_year_def days_before_month_def DAYS_BEFORE_MONTH_def MAXORDINAL_def
  ord2ymd_def Let_def

lemma ex_deadline:
  "quarter_deadline 2025 1 30 = Inr (Date 2025 4 30)"
  "quarter_deadline 2025 2 30 = Inr (Date 2025 7 30)"
  "quarter_deadline 2025 3 30 = Inr (Date 2025 10 30)"
  "quarter_deadline 2025 4 30 = Inr (Date 2026 1 30)"
  by (simp_all add: deadline_eval)

lemma ex_status:
  "compute_quarter_status ex_orgs ex_docs (Date 2025 5 15) 30 8 =
     Inr [((ascii ''Seoul Metro'', 2025, 1), ascii ''OK''),
          ((ascii ''Seoul Metro'', 2025, 2), ascii ''OK''),
          ((ascii ''Seoul Metro'', 2025, 3), ascii ''PENDING''),
          ((ascii ''Seoul Metro'', 2025, 4), ascii ''PENDING'')]"
proof -
  have f: "found_loop ex_orgs 30 ex_docs [] =
     Inr [((ascii ''Seoul Metro'', 2025, 1), ascii ''OK''),
          ((ascii ''Seoul Metro'', 2025, 2), ascii ''OK'')]"
    by (simp add: ex_docs_def ex_match ex_quarter ex_deadline doc_status_def date_le_def)
  have q: "report_quarters (Date 2025 5 15) =
     [YearQuarter 2025 1, YearQuarter 2025 2, YearQuarter 2025 3, YearQuarter 2025 4]"
    by (simp add: report_quarters_def upto_rec1)
  have "compute_quarter_status ex_orgs ex_docs (Date 2025 5 15) 30 8 =
      result_loop [((ascii ''Seoul Metro'', 2025, 1), ascii ''OK''),
          ((ascii ''Seoul Metro'', 2025, 2), ascii ''OK'')] (Date 2025 5 15) 30
        [YearQuarter 2025 1, YearQuarter 2025 2, YearQuarter 2025 3, YearQuarter 2025 4]
        ex_orgs []"
    by (simp add: compute_quarter_status_def f q del: found_loop.simps result_loop.simps)
  also have "\<dots> = Inr [((ascii ''Seoul Metro'', 2025, 1), ascii ''OK''),
          ((ascii ''Seoul Metro'', 2025, 2), ascii ''OK''),
          ((ascii ''Seoul Metro'', 2025, 3), ascii ''PENDING''),
          ((ascii ''Seoul Metro'', 2025, 4), ascii ''PENDING'')]"
    by (simp add: ex_orgs_def ex_deadline date_le_def)
  finally show ?thesis .
qed

lemma ex_main:
  "main ex_env ex_settings ex_orgs (Date 2025 5 15) NoFile =
     Inr \<lparr>res_doc_reports =
            [DocReport (Some (ascii ''Seoul Metro'')) (ascii ''101'') ex_title1
               (Some (Date 2025 4 10)) (ascii ''https://opengov.seoul.go.kr/public/101'')
               [\<lparr>rep_filename = ascii ''a.xlsx'',
                  rep_url = ascii ''https://opengov.seoul.go.kr/f/101'',
                  rep_kind = ascii ''xlsx'',
                  rep_summary = ascii ''('' @ [0xc694, 0xc57d, 32, 0xbbf8, 0xc0ac, 0xc6a9]
                     @ ascii '': SUMMARY_PROVIDER=none)''\<rparr>]],
          res_quarter_status =
            [((ascii ''Seoul Metro'', 2025, 1), ascii ''OK''),
             ((ascii ''Seoul Metro'', 2025, 2), ascii ''OK''),
             ((ascii ''Seoul Metro'', 2025, 3), ascii ''PENDING''),
             ((ascii ''Seoul Metro'', 2025, 4), ascii ''PENDING'')],
          res_seen_file = SeenFile (Some [ascii ''101|https://opengov.seoul.go.kr/f/101'']),
          res_events =
            [Get (ListPage 50 2025 1), Get (ListPage 50 2025 1), SleepPolite,
             Get (ListPage 50 2025 2), Get (ListPage 50 2025 3),
             Get (DetailPage (ascii ''101'')),
             Get (Href (ascii ''https://opengov.seoul.go.kr/f/101''))]\<rparr>"
proof -
  have m: "month_range (YearMonth 2025 4) = Inr (Date 2025 4 1, Date 2025 5 1)"
    by (simp add: month_range_def date_eval)
  have md: "filter (\<lambda>d. is_doc_in_month d (Date 2025 4 1) (Date 2025 5 1)) ex_docs =
      [DocItem (ascii ''101'') ex_title1 (Some (Date 2025 4 10))
        (ascii ''https://opengov.seoul.go.kr/public/101'')]"
    by (simp add: ex_docs_def is_doc_in_month_def date_le_def date_lt_def)
  have x: "is_xlsx (ascii ''a.xlsx'')"
    by (simp add: is_xlsx_def endswith_def py_lower_def ascii_lower_def ascii_def)
  have s: "summarize ex_summarizer (ascii ''none'') p =
      Inr (ascii ''('' @ [0xc694, 0xc57d, 32, 0xbbf8, 0xc0ac, 0xc6a9] @ ascii '': SUMMARY_PROVIDER=none)'')" for p
    by (simp add: summarize_def ex_summarizer_def py_lower_def ascii_lower_def ascii_def)
  have fa: "fetch_attachments ex_site (ascii ''101'') tr =
      (Inr [Attachment (ascii ''101'') (ascii ''a.xlsx'') (ascii ''https://opengov.seoul.go.kr/f/101'')],
       tr @ [Get (DetailPage (ascii ''101''))])" for tr
    by (simp add: fetch_attachments_def get_soup_def ex_site_def ex_soup_def link_filename_def)
       (simp add: ascii_def)
  have pd: "process_docs ex_env (ascii ''none'') ex_orgs
      [DocItem (ascii ''101'') ex_title1 (Some (Date 2025 4 10))
        (ascii ''https://opengov.seoul.go.kr/public/101'')] [] {||}
      [Get (ListPage 50 2025 1), Get (ListPage 50 2025 1), SleepPolite,
       Get (ListPage 50 2025 2), Get (ListPage 50 2025 3)] =
     Inr ([DocReport (Some (ascii ''Seoul Metro'')) (ascii ''101'') ex_title1
               (Some (Date 2025 4 10)) (ascii ''https://opengov.seoul.go.kr/public/101'')
               [\<lparr>rep_filename = ascii ''a.xlsx'',
                  rep_url = ascii ''https://opengov.seoul.go.kr/f/101'',
                  rep_kind = ascii ''xlsx'',
                  rep_summary = ascii ''('' @ [0xc694, 0xc57d, 32, 0xbbf8, 0xc0ac, 0xc6a9]
                     @ ascii '': SUMMARY_PROVIDER=none)''\<rparr>]],
          {|ascii ''101|https://opengov.seoul.go.kr/f/101''|},
          [Get (ListPage 50 2025 1), Get (ListPage 50 2025 1), SleepPolite,
             Get (ListPage 50 2025 2), Get (ListPage 50 2025 3),
             Get (DetailPage (ascii ''101'')),
             Get (Href (ascii ''https://opengov.seoul.go.kr/f/101''))])"
  proof -
    have ts: "try_summary ex_env (ascii ''none'') org d
        (Attachment (ascii ''101'') (ascii ''a.xlsx'') (ascii ''https://opengov.seoul.go.kr/f/101'')) tr =
      (Inr (ascii ''('' @ [0xc694, 0xc57d, 32, 0xbbf8, 0xc0ac, 0xc6a9] @ ascii '': SUMMARY_PROVIDER=none)''),
       tr @ [Get (Href (ascii ''https://opengov.seoul.go.kr/f/101''))])" for org d tr
      by (simp add: try_summary_def download_bytes_def ex_env_def ex_site_def ex_soup_def s)
    have k: "ascii ''101|https://opengov.seoul.go.kr/f/101'' =
        ascii ''101'' @ ascii ''|'' @ ascii ''https://opengov.seoul.go.kr/f/101''"
      by (simp add: ascii_def)
    have pa: "process_attachment ex_env (ascii ''none'') org
        (DocItem (ascii ''101'') ex_title1 (Some (Date 2025 4 10))
          (ascii ''https://opengov.seoul.go.kr/public/101''))
        (Attachment (ascii ''101'') (ascii ''a.xlsx'') (ascii ''https://opengov.seoul.go.kr/f/101'')) {||} tr =
      (\<lparr>rep_filename = ascii ''a.xlsx'',
                  rep_url = ascii ''https://opengov.seoul.go.kr/f/101'',
                  rep_kind = ascii ''xlsx'',
                  rep_summary = ascii ''('' @ [0xc694, 0xc57d, 32, 0xbbf8, 0xc0ac, 0xc6a9]
                     @ ascii '': SUMMARY_PROVIDER=none)''\<rparr>,
       {|ascii ''101|https://opengov.seoul.go.kr/f/101''|},
       tr @ [Get (Href (ascii ''https://opengov.seoul.go.kr/f/101''))])" for org tr
      by (simp add: process_attachment_def x ts k)
    have se: "site_of ex_env = ex_site" by (simp add: ex_env_def)
    show ?thesis
      by (simp add: ex_match se fa pa)
  qed
  show ?thesis
    by (simp add: main_def prev_month_def m ex_settings_def ex_env_def ex_crawl md ex_status
        load_seen_def pd [unfolded ex_env_def] save_seen_def sorted_list_of_fset.rep_eq
        del: process_docs.simps)
qed

theorem absent_pub_date_never_in_month_witness:
  "pub_date (ex_docs ! 1) = None
   \<and> \<not> is_doc_in_month (ex_docs ! 1) (Date 2025 4 1) (Date 2025 5 1)
   \<and> doc_status (ex_docs ! 1) (Date 2025 7 30) = ascii ''OK''
   \<and> (\<exists>r. main ex_env ex_settings ex_orgs (Date 2025 5 15) NoFile = Inr r
          \<and> Get (DetailPage (nid (ex_docs ! 1))) \<notin> set (res_events r)
          \<and> Get (DetailPage (nid (ex_docs ! 0))) \<in> set (res_events r)
          \<and> map dr_nid (res_doc_reports r) = [nid (ex_docs ! 0)])"
proof -
  have h: "pub_date (ex_docs ! 1) = None" by (simp add: ex_docs_def)
  note t = absent_pub_date_never_in_month [OF h, where start = "Date 2025 4 1"
      and end' = "Date 2025 5 1" and docs = ex_docs and deadline = "Date 2025 7 30" and env = ex_env
      and s = ex_settings and orgs = ex_orgs and now = "Date 2025 5 15" and state = NoFile]
  obtain r where r: "main ex_env ex_settings ex_orgs (Date 2025 5 15) NoFile = Inr r"
    using ex_main by blast
  have c: "fetch_docs_all (site_of ex_env) (prev_month (Date 2025 5 15))
      (opengov_max_pages ex_settings) (opengov_stop_after_empty ex_settings) 50 [] =
      (Some ex_docs, [Get (ListPage 50 2025 1), Get (ListPage 50 2025 1), SleepPolite,
       Get (ListPage 50 2025 2), Get (ListPage 50 2025 3)])"
    using ex_crawl by (simp add: ex_env_def ex_settings_def prev_month_def)
  have m: "ex_docs ! 1 \<in> set ex_docs" by (simp add: ex_docs_def)
  from t have t4: "main ex_env ex_settings ex_orgs (Date 2025 5 15) NoFile = Inr r
         \<and> fetch_docs_all (site_of ex_env) (prev_month (Date 2025 5 15))
          (opengov_max_pages ex_settings) (opengov_stop_after_empty ex_settings) 50 [] =
         (Some ex_docs, [Get (ListPage 50 2025 1), Get (ListPage 50 2025 1), SleepPolite,
       Get (ListPage 50 2025 2), Get (ListPage 50 2025 3)])
         \<and> ex_docs ! 1 \<in> set ex_docs \<longrightarrow>
         Get (DetailPage (nid (ex_docs ! 1))) \<notin> set (res_events r) \<and>
         (\<forall>dr\<in>set (res_doc_reports r). dr_nid dr \<noteq> nid (ex_docs ! 1))"
    by (elim conjE allE)
  from t4 r c m have n: "Get (DetailPage (nid (ex_docs ! 1))) \<notin> set (res_events r)"
    by (elim impE conjE) (intro conjI)
  have p: "Get (DetailPage (nid (ex_docs ! 0))) \<in> set (res_events r)
      \<and> map dr_nid (res_doc_reports r) = [nid (ex_docs ! 0)]"
    using r by (auto simp add: ex_main ex_docs_def)
  from t have t1: "\<not> is_doc_in_month (ex_docs ! 1) (Date 2025 4 1) (Date 2025 5 1)"
    and t3: "doc_status (ex_docs ! 1) (Date 2025 7 30) = ascii ''OK''" by (rule conjunct1, rule conjunct1 [OF conjunct2 [OF conjunct2]])
  from r n p have "\<exists>r. main ex_env ex_settings ex_orgs (Date 2025 5 15) NoFile = Inr r
          \<and> Get (DetailPage (nid (ex_docs ! 1))) \<notin> set (res_events r)
          \<and> Get (DetailPage (nid (ex_docs ! 0))) \<in> set (res_events r)
          \<and> map dr_nid (res_doc_reports r) = [nid (ex_docs ! 0)]"
    by (intro exI [of _ r] conjI) (rule r, rule n, rule conjunct1 [OF p], rule conjunct2 [OF p])
  with h t1 t3 show ?thesis by (intro conjI)
qed

section \<open>The probe of the count\<close>

text \<open>
  C1. When the request for the first list page raises, \<open>fetch_docs_all\<close> leaves through
  the bare \<open>return\<close> of its handler: it returns \<open>None\<close> after that one request, no page of
  the crawl is requested, the fallback ceiling is never used, and \<open>main\<close>, which iterates
  over the result, ends with \<open>TypeError\<close>. Only when the probe returns without a count
  does the crawl go on, over the pages 1 to \<open>max_pages_fallback\<close>.
\<close>

theorem probe_raise_aborts_crawl:
  fixes ym :: YearMonth
  defines "ty \<equiv> (if ym_month ym \<le> 2 then ym_year ym - 1 else ym_year ym)"
  shows "(srv tr (list_page_url ty 1 ipp) = Inl e \<longrightarrow>
            fetch_docs_all srv ym mpf sae ipp tr = (None, tr @ [Get (list_page_url ty 1 ipp)]))
       \<and> (fetch_total_count srv ipp ty tr = (Inr None, tr') \<longrightarrow>
            fetch_docs_all srv ym mpf sae ipp tr =
              (case crawl_pages srv ty sae [1..mpf] tr' [] 0 of
                 (docs, tr'') \<Rightarrow> (Some (map snd docs), tr'')))
       \<and> (month_range (prev_month now) = Inr mr
            \<and> site_of env [] (list_page_url
                 (if ym_month (prev_month now) \<le> 2 then ym_year (prev_month now) - 1
                  else ym_year (prev_month now)) 1 50) = Inl e \<longrightarrow>
            main env s orgs now state = Inl TypeError)"
proof (intro conjI impI)
  assume "srv tr (list_page_url ty 1 ipp) = Inl e"
  then show "fetch_docs_all srv ym mpf sae ipp tr = (None, tr @ [Get (list_page_url ty 1 ipp)])"
    by (simp add: fetch_docs_all_def fetch_total_count_def get_soup_def Let_def ty_def)
next
  assume "fetch_total_count srv ipp ty tr = (Inr None, tr')"
  then show "fetch_docs_all srv ym mpf sae ipp tr =
      (case crawl_pages srv ty sae [1..mpf] tr' [] 0 of
         (docs, tr'') \<Rightarrow> (Some (map snd docs), tr''))"
    by (simp add: fetch_docs_all_def Let_def ty_def)
next
  assume a: "month_range (prev_month now) = Inr mr
            \<and> site_of env [] (list_page_url
                 (if ym_month (prev_month now) \<le> 2 then ym_year (prev_month now) - 1
                  else ym_year (prev_month now)) 1 50) = Inl e"
  then have "fetch_docs_all (site_of env) (prev_month now) (opengov_max_pages s)
       (opengov_stop_after_empty s) 50 [] =
     (None, [] @ [Get (list_page_url (if ym_month (prev_month now) \<le> 2 then ym_year (prev_month now) - 1
                  else ym_year (prev_month now)) 1 50)])"
    by (simp add: fetch_docs_all_def fetch_total_count_def get_soup_def Let_def)
  with a show "main env s orgs now state = Inl TypeError"
    by (cases mr) (simp add: main_def Let_def)
qed

theorem probe_raise_aborts_crawl_witness:
  "fetch_docs_all (\<lambda>tr u. Inl RequestException) (YearMonth 2025 4) 300 2 50 [] =
     (None, [Get (ListPage 50 2025 1)])
   \<and> main (ex_env\<lparr>site_of := (\<lambda>tr u. Inl RequestException)\<rparr>) ex_settings ex_orgs
        (Date 2025 5 15) NoFile = Inl TypeError"
proof -
  have m: "month_range (prev_month (Date 2025 5 15)) = Inr (Date 2025 4 1, Date 2025 5 1)"
    by (simp add: prev_month_def month_range_def date_eval)
  note t = probe_raise_aborts_crawl [where srv = "\<lambda>tr u. Inl RequestException"
      and e = RequestException and ym = "YearMonth 2025 4" and tr = "[]" and ipp = 50
      and mpf = 300 and sae = 2 and now = "Date 2025 5 15" and mr = "(Date 2025 4 1, Date 2025 5 1)"
      and env = "ex_env\<lparr>site_of := (\<lambda>tr u. Inl RequestException)\<rparr>" and s = ex_settings
      and orgs = ex_orgs and state = NoFile]
  from t m show ?thesis by (simp add: list_page_url_def)
qed

section \<open>The summarizer\<close>

text \<open>
  C9, as the program has it. \<open>summarize\<close> returns the fixed placeholder for the provider
  \<open>none\<close> (also when no provider is given), whatever the payload. For any other provider
  it first serializes the payload with \<open>json.dumps\<close>, outside any \<open>try\<close>: when
  \<open>json.dumps\<close> returns, \<open>summarize\<close> returns a text (for \<open>openai\<close> the answer, or a text
  describing the missing key or the exception of the request; for an unknown provider a
  placeholder naming it), and when \<open>json.dumps\<close> raises, its exception leaves
  \<open>summarize\<close>.
\<close>

theorem summarize_raises_only_from_json_dumps:
  fixes provider :: pystr and env :: summarizer_env and payload :: "(pystr \<times> pyval) list"
  defines "p \<equiv> str_lower env (if provider = [] then ascii ''none'' else provider)"
    and "js \<equiv> json_dumps env (PDict (map (\<lambda>(k, v). (PStr k, v)) payload))"
  shows "(p = ascii ''none'' \<longrightarrow>
            summarize env provider payload =
              Inr (ascii ''('' @ [0xc694, 0xc57d, 32, 0xbbf8, 0xc0ac, 0xc6a9]
                     @ ascii '': SUMMARY_PROVIDER=none)''))
       \<and> (\<forall>dumped. p \<noteq> ascii ''none'' \<and> js = Inr dumped \<longrightarrow>
            (\<exists>out. summarize env provider payload = Inr out)
            \<and> (p \<noteq> ascii ''openai'' \<longrightarrow>
                  summarize env provider payload =
                    Inr (ascii ''('' @ [0xc54c, 32, 0xc218, 32, 0xc5c6, 0xb294]
                           @ ascii '' provider: '' @ p @ ascii '')''))
            \<and> (p = ascii ''openai'' \<and> py_strip (OPENAI_API_KEY env) = [] \<longrightarrow>
                  summarize env provider payload =
                    Inr (ascii ''(OpenAI '' @ [0xc694, 0xc57d, 32, 0xc2e4, 0xd328]
                           @ ascii '': OPENAI_API_KEY '' @ [0xbbf8, 0xc124, 0xc815] @ ascii '')''))
            \<and> (\<forall>e. p = ascii ''openai'' \<and> py_strip (OPENAI_API_KEY env) \<noteq> []
                   \<and> openai_request env (py_strip (OPENAI_API_KEY env)) (py_strip (OPENAI_MODEL env))
                        (truncate_text dumped 12000) = Inl e \<longrightarrow>
                  summarize env provider payload =
                    Inr (ascii ''(OpenAI '' @ [0xc694, 0xc57d, 32, 0xc2e4, 0xd328] @ ascii '': ''
                           @ exc_text env e @ ascii '')''))
            \<and> (\<forall>content. p = ascii ''openai'' \<and> py_strip (OPENAI_API_KEY env) \<noteq> []
                   \<and> openai_request env (py_strip (OPENAI_API_KEY env)) (py_strip (OPENAI_MODEL env))
                        (truncate_text dumped 12000) = Inr content \<longrightarrow>
                  summarize env provider payload = Inr (py_strip content)))
       \<and> (\<forall>e. p \<noteq> ascii ''none'' \<and> js = Inl e \<longrightarrow> summarize env provider payload = Inl e)"
proof (intro conjI impI allI)
  assume "p = ascii ''none''"
  then show "summarize env provider payload =
      Inr (ascii ''('' @ [0xc694, 0xc57d, 32, 0xbbf8, 0xc0ac, 0xc6a9] @ ascii '': SUMMARY_PROVIDER=none)'')"
    by (simp add: summarize_def p_def Let_def)
next
  fix dumped
  assume a: "p \<noteq> ascii ''none'' \<and> js = Inr dumped"
  then show "\<exists>out. summarize env provider payload = Inr out"
    by (simp add: summarize_def p_def js_def Let_def)
  {
    assume "p \<noteq> ascii ''openai''"
    with a show "summarize env provider payload =
        Inr (ascii ''('' @ [0xc54c, 32, 0xc218, 32, 0xc5c6, 0xb294] @ ascii '' provider: '' @ p @ ascii '')'')"
      by (simp add: summarize_def p_def js_def Let_def)
  }
  {
    assume "p = ascii ''openai'' \<and> py_strip (OPENAI_API_KEY env) = []"
    with a show "summarize env provider payload =
        Inr (ascii ''(OpenAI '' @ [0xc694, 0xc57d, 32, 0xc2e4, 0xd328]
               @ ascii '': OPENAI_API_KEY '' @ [0xbbf8, 0xc124, 0xc815] @ ascii '')'')"
      by (simp add: summarize_def p_def js_def Let_def summarize_openai_def)
  }
  {
    fix e
    assume "p = ascii ''openai'' \<and> py_strip (OPENAI_API_KEY env) \<noteq> []
        \<and> openai_request env (py_strip (OPENAI_API_KEY env)) (py_strip (OPENAI_MODEL env))
             (truncate_text dumped 12000) = Inl e"
    with a show "summarize env provider payload =
        Inr (ascii ''(OpenAI '' @ [0xc694, 0xc57d, 32, 0xc2e4, 0xd328] @ ascii '': ''
               @ exc_text env e @ ascii '')'')"
      by (simp add: summarize_def p_def js_def Let_def summarize_openai_def)
  }
  {
    fix content
    assume "p = ascii ''openai'' \<and> py_strip (OPENAI_API_KEY env) \<noteq> []
        \<and> openai_request env (py_strip (OPENAI_API_KEY env)) (py_strip (OPENAI_MODEL env))
             (truncate_text dumped 12000) = Inr content"
    with a show "summarize env provider payload = Inr (py_strip content)"
      by (simp add: summarize_def p_def js_def Let_def summarize_openai_def)
  }
next
  fix e
  assume "p \<noteq> ascii ''none'' \<and> js = Inl e"
  then show "summarize env provider payload = Inl e"
    by (simp add: summarize_def p_def js_def Let_def)
qed

lemma lower_eval:
  "py_lower (ascii ''OpenAI'') = ascii ''openai''"
  "py_lower (ascii ''none'') = ascii ''none''"
  "py_lower (ascii ''Gemini'') = ascii ''gemini''"
  "ascii ''openai'' \<noteq> ascii ''none''"
  "ascii ''gemini'' \<noteq> ascii ''none''"
  "ascii ''gemini'' \<noteq> ascii ''openai''"
  by (simp_all add: py_lower_def ascii_lower_def ascii_def)

lemma ex_dumps_eval:
  "ex_json_dumps (PDict [(PStr (ascii ''sheets''), PObject (ascii ''{1, 2}''))]) = Inl TypeError"
  "ex_json_dumps (PDict [(PStr (ascii ''sheets''), PList [PInt 1, PInt 2])]) = Inr (ascii ''{}'')"
  by (simp_all add: ex_json_dumps_def json_key_ok_def)

text \<open>
  The claim fails where a payload holds a value that \<open>json.dumps\<close> refuses, here a set
  under the key \<open>sheets\<close>, and the provider is not \<open>none\<close>: \<open>summarize\<close> raises.
\<close>

theorem summarize_raises_counterexample:
  "summarize ex_summarizer (ascii ''OpenAI'') [(ascii ''sheets'', PObject (ascii ''{1, 2}''))]
     = Inl TypeError
   \<and> summarize ex_summarizer (ascii ''Gemini'') [(ascii ''sheets'', PObject (ascii ''{1, 2}''))]
     = Inl TypeError"
  by (simp add: summarize_def ex_summarizer_def lower_eval ex_dumps_eval)

theorem summarize_raises_only_from_json_dumps_witness:
  "summarize ex_summarizer [] [(ascii ''sheets'', PObject (ascii ''{1, 2}''))] =
     Inr (ascii ''('' @ [0xc694, 0xc57d, 32, 0xbbf8, 0xc0ac, 0xc6a9] @ ascii '': SUMMARY_PROVIDER=none)'')
   \<and> summarize ex_summarizer (ascii ''Gemini'') [(ascii ''sheets'', PList [PInt 1, PInt 2])] =
     Inr (ascii ''('' @ [0xc54c, 32, 0xc218, 32, 0xc5c6, 0xb294] @ ascii '' provider: gemini)'')
   \<and> summarize ex_summarizer (ascii ''OpenAI'') [(ascii ''sheets'', PList [PInt 1, PInt 2])] =
     Inr (ascii ''(OpenAI '' @ [0xc694, 0xc57d, 32, 0xc2e4, 0xd328]
            @ ascii '': OPENAI_API_KEY '' @ [0xbbf8, 0xc124, 0xc815] @ ascii '')'')
   \<and> summarize (ex_summarizer\<lparr>OPENAI_API_KEY := ascii ''k''\<rparr>) (ascii ''OpenAI'')
         [(ascii ''sheets'', PList [PInt 1, PInt 2])] =
     Inr (ascii ''(OpenAI '' @ [0xc694, 0xc57d, 32, 0xc2e4, 0xd328] @ ascii '': error)'')
   \<and> summarize ex_summarizer (ascii ''Gemini'') [(ascii ''sheets'', PObject (ascii ''{1, 2}''))]
     = Inl TypeError"
proof -
  let ?bad = "[(ascii ''sheets'', PObject (ascii ''{1, 2}''))]"
  let ?good = "[(ascii ''sheets'', PList [PInt 1, PInt 2])]"
  let ?key = "ex_summarizer\<lparr>OPENAI_API_KEY := ascii ''k''\<rparr>"
  have k: "py_strip (OPENAI_API_KEY ex_summarizer) = []"
    "py_strip (OPENAI_API_KEY ?key) \<noteq> []"
    "openai_request ?key a m t = Inl RequestException"
    "exc_text ?key e = ascii ''error''"
    "json_dumps ex_summarizer = ex_json_dumps" "json_dumps ?key = ex_json_dumps"
    "str_lower ex_summarizer = py_lower" "str_lower ?key = py_lower"
    "openai_request ex_summarizer a m t = Inl RequestException"
    "exc_text ex_summarizer e = ascii ''error''" "py_strip [107] \<noteq> []" for a m t e
    by (simp_all add: ex_summarizer_def py_strip_def ascii_def is_space_def)
  have 1: "summarize ex_summarizer [] ?bad =
     Inr (ascii ''('' @ [0xc694, 0xc57d, 32, 0xbbf8, 0xc0ac, 0xc6a9] @ ascii '': SUMMARY_PROVIDER=none)'')"
    using summarize_raises_only_from_json_dumps [where env = ex_summarizer and provider = "[]" and payload = "?bad"]
    by (simp add: lower_eval k)
  have 2: "summarize ex_summarizer (ascii ''Gemini'') ?good =
     Inr (ascii ''('' @ [0xc54c, 32, 0xc218, 32, 0xc5c6, 0xb294] @ ascii '' provider: gemini)'')"
    using summarize_raises_only_from_json_dumps [where env = ex_summarizer and provider = "ascii ''Gemini''" and payload = "?good"]
    by (simp add: lower_eval k ex_dumps_eval) (simp add: ascii_def)
  have 3: "summarize ex_summarizer (ascii ''OpenAI'') ?good =
     Inr (ascii ''(OpenAI '' @ [0xc694, 0xc57d, 32, 0xc2e4, 0xd328]
            @ ascii '': OPENAI_API_KEY '' @ [0xbbf8, 0xc124, 0xc815] @ ascii '')'')"
    using summarize_raises_only_from_json_dumps [where env = ex_summarizer and provider = "ascii ''OpenAI''" and payload = "?good"]
    by (simp add: lower_eval k ex_dumps_eval)
  have 4: "summarize ?key (ascii ''OpenAI'') ?good =
     Inr (ascii ''(OpenAI '' @ [0xc694, 0xc57d, 32, 0xc2e4, 0xd328] @ ascii '': error)'')"
    using summarize_raises_only_from_json_dumps [where env = ?key and provider = "ascii ''OpenAI''" and payload = "?good"]
    by (simp add: lower_eval k ex_dumps_eval) (simp add: ascii_def py_strip_def is_space_def)
  have 5: "summarize ex_summarizer (ascii ''Gemini'') ?bad = Inl TypeError"
    using summarize_raises_only_from_json_dumps [where env = ex_summarizer and provider = "ascii ''Gemini''" and payload = "?bad"]
    by (simp add: lower_eval k ex_dumps_eval)
  from 1 2 3 4 5 show ?thesis by (intro conjI)
qed

section \<open>The loop over the pages\<close>

lemma requests_of_append [simp]: "requests_of (a @ b) = requests_of a @ requests_of b"
  by (induction a rule: requests_of.induct) auto
















section \<open>The attachments already seen\<close>

lemma process_attachment_seen:
  "process_attachment env pr org d a seen tr = (rep, seen', tr') \<Longrightarrow>
     seen' = finsert (nid d @ ascii ''|'' @ att_url a) seen"
  by (auto simp: process_attachment_def Let_def split: if_splits prod.splits)

lemma process_attachment_again:
  assumes "(nid d @ ascii ''|'' @ att_url a) |\<in>| seen"
  shows "\<exists>rep. process_attachment env pr org d a seen tr = (rep, seen, tr) \<and> rep_summary rep = []
           \<and> rep_filename rep = att_filename a \<and> rep_url rep = att_url a
           \<and> (is_xlsx (att_filename a) \<longrightarrow> rep_kind rep = ascii ''xlsx'')"
  using assms by (auto simp: process_attachment_def Let_def)

lemma process_attachments_seen:
  "process_attachments env pr org d atts reps seen tr = (reps', seen', tr') \<Longrightarrow>
     seen |\<subseteq>| seen' \<and> (\<forall>a \<in> set atts. (nid d @ ascii ''|'' @ att_url a) |\<in>| seen')"
proof (induction atts arbitrary: reps seen tr)
  case Nil
  then show ?case by simp
next
  case (Cons a atts)
  obtain rep s1 t1 where pa: "process_attachment env pr org d a seen tr = (rep, s1, t1)"
    by (cases "process_attachment env pr org d a seen tr") auto
  with Cons.prems have "process_attachments env pr org d atts (reps @ [rep]) s1 t1 = (reps', seen', tr')"
    by simp
  from Cons.IH [OF this] process_attachment_seen [OF pa] show ?case by auto
qed

lemma load_save_seen: "load_seen (save_seen seen) = seen"
  by (simp add: load_seen_def save_seen_def)

text \<open>
  C5. One turn of the loop over the attachments leaves the composite key
  \<open>nid|url\<close> of its attachment in the set \<open>seen\<close>, whatever the download, the parser and
  the summarizer do, and removes nothing from the set; so does the whole loop for every
  attachment of its list. Processing the same attachment again with a set that holds its
  key, later in the run or after the set was saved and loaded again, yields an entry with
  an empty summary and adds no event: nothing is downloaded.
\<close>

theorem attachment_key_marked_seen:
  "(process_attachment env pr org d a seen tr = (rep, seen', tr') \<longrightarrow>
      (nid d @ ascii ''|'' @ att_url a) |\<in>| seen' \<and> seen |\<subseteq>| seen'
      \<and> (\<forall>seen_b. seen' |\<subseteq>| seen_b \<longrightarrow>
            (\<exists>rep_b. process_attachment env_b pr_b org_b d a seen_b tr_b = (rep_b, seen_b, tr_b)
                    \<and> rep_summary rep_b = [] \<and> rep_filename rep_b = att_filename a
                    \<and> rep_url rep_b = att_url a
                    \<and> (is_xlsx (att_filename a) \<longrightarrow> rep_kind rep_b = ascii ''xlsx'')))
      \<and> (\<exists>rep_b. process_attachment env_b pr_b org_b d a (load_seen (save_seen seen')) tr_b
                    = (rep_b, load_seen (save_seen seen'), tr_b)
                  \<and> rep_summary rep_b = []))
   \<and> (process_attachments env pr org d atts reps seen tr = (reps', seen', tr') \<longrightarrow>
        seen |\<subseteq>| seen' \<and> (\<forall>a \<in> set atts. (nid d @ ascii ''|'' @ att_url a) |\<in>| seen'))
   \<and> load_seen (save_seen seen) = seen"
proof (intro conjI impI allI)
  assume p: "process_attachment env pr org d a seen tr = (rep, seen', tr')"
  from process_attachment_seen [OF p]
  show k: "(nid d @ ascii ''|'' @ att_url a) |\<in>| seen'" and "seen |\<subseteq>| seen'" by auto
  show "\<exists>rep_b. process_attachment env_b pr_b org_b d a seen_b tr_b = (rep_b, seen_b, tr_b)
                    \<and> rep_summary rep_b = [] \<and> rep_filename rep_b = att_filename a
                    \<and> rep_url rep_b = att_url a
                    \<and> (is_xlsx (att_filename a) \<longrightarrow> rep_kind rep_b = ascii ''xlsx'')"
    if "seen' |\<subseteq>| seen_b" for seen_b
  proof -
    from k that have "(nid d @ ascii ''|'' @ att_url a) |\<in>| seen_b" by auto
    then show ?thesis by (rule process_attachment_again)
  qed
  from k have "(nid d @ ascii ''|'' @ att_url a) |\<in>| load_seen (save_seen seen')"
    by (simp add: load_save_seen)
  from process_attachment_again [OF this, of env_b pr_b org_b tr_b]
  show "\<exists>rep_b. process_attachment env_b pr_b org_b d a (load_seen (save_seen seen')) tr_b
                    = (rep_b, load_seen (save_seen seen'), tr_b)
                  \<and> rep_summary rep_b = []" by blast
next
  assume "process_attachments env pr org d atts reps seen tr = (reps', seen', tr')"
  from process_attachments_seen [OF this]
  show "seen |\<subseteq>| seen'" and "\<forall>a \<in> set atts. (nid d @ ascii ''|'' @ att_url a) |\<in>| seen'"
    by simp_all
next
  show "load_seen (save_seen seen) = seen" by (rule load_save_seen)
qed

theorem attachment_key_marked_seen_witness:
  "process_attachment (ex_env\<lparr>site_of := (\<lambda>tr u. Inl RequestException)\<rparr>) (ascii ''none'')
       (ascii ''Seoul Metro'') (ex_docs ! 0)
       (Attachment (ascii ''101'') (ascii ''a.xlsx'') (ascii ''https://opengov.seoul.go.kr/f/101''))
       {||} [] =
     (\<lparr>rep_filename = ascii ''a.xlsx'', rep_url = ascii ''https://opengov.seoul.go.kr/f/101'',
       rep_kind = ascii ''xlsx'',
       rep_summary = ascii ''(xlsx '' @ [0xcc98, 0xb9ac, 32, 0xc2e4, 0xd328] @ ascii '': error)''\<rparr>,
      {|ascii ''101|https://opengov.seoul.go.kr/f/101''|},
      [Get (Href (ascii ''https://opengov.seoul.go.kr/f/101''))])
   \<and> (\<exists>rep_b. process_attachment ex_env (ascii ''none'') (ascii ''Seoul Metro'') (ex_docs ! 0)
         (Attachment (ascii ''101'') (ascii ''a.xlsx'') (ascii ''https://opengov.seoul.go.kr/f/101''))
         (load_seen (save_seen {|ascii ''101|https://opengov.seoul.go.kr/f/101''|}))
         [Get (Href (ascii ''https://opengov.seoul.go.kr/f/101''))] =
       (rep_b, load_seen (save_seen {|ascii ''101|https://opengov.seoul.go.kr/f/101''|}),
        [Get (Href (ascii ''https://opengov.seoul.go.kr/f/101''))])
       \<and> rep_summary rep_b = [])"
proof -
  let ?env = "ex_env\<lparr>site_of := (\<lambda>tr u. Inl RequestException)\<rparr>"
  let ?a = "Attachment (ascii ''101'') (ascii ''a.xlsx'') (ascii ''https://opengov.seoul.go.kr/f/101'')"
  have x: "is_xlsx (ascii ''a.xlsx'')"
    by (simp add: is_xlsx_def endswith_def py_lower_def ascii_lower_def ascii_def)
  have k: "ascii ''101|https://opengov.seoul.go.kr/f/101'' =
        ascii ''101'' @ ascii ''|'' @ ascii ''https://opengov.seoul.go.kr/f/101''"
    by (simp add: ascii_def)
  have ts: "try_summary ?env (ascii ''none'') (ascii ''Seoul Metro'') (ex_docs ! 0) ?a [] =
      (Inl RequestException, [Get (Href (ascii ''https://opengov.seoul.go.kr/f/101''))])"
    by (simp add: try_summary_def download_bytes_def ex_env_def)
  have 1: "process_attachment ?env (ascii ''none'') (ascii ''Seoul Metro'') (ex_docs ! 0) ?a {||} [] =
     (\<lparr>rep_filename = ascii ''a.xlsx'', rep_url = ascii ''https://opengov.seoul.go.kr/f/101'',
       rep_kind = ascii ''xlsx'',
       rep_summary = ascii ''(xlsx '' @ [0xcc98, 0xb9ac, 32, 0xc2e4, 0xd328] @ ascii '': error)''\<rparr>,
      {|ascii ''101|https://opengov.seoul.go.kr/f/101''|},
      [Get (Href (ascii ''https://opengov.seoul.go.kr/f/101''))])"
  proof -
    have n: "nid (ex_docs ! 0) = ascii ''101''" by (simp add: ex_docs_def)
    have e: "exc_text (summarizer ?env) RequestException = ascii ''error''"
      by (simp add: ex_env_def ex_summarizer_def)
    have e': "exc_text (summarizer ex_env) RequestException = ascii ''error''"
      by (simp add: ex_env_def ex_summarizer_def)
    show ?thesis by (simp add: process_attachment_def x ts k n e e') (simp add: ascii_def)
  qed
  note t = attachment_key_marked_seen [where env = ?env and pr = "ascii ''none''"
      and org = "ascii ''Seoul Metro''" and d = "ex_docs ! 0" and a = ?a and seen = "{||}" and tr = "[]"
      and env_b = ex_env and pr_b = "ascii ''none''" and org_b = "ascii ''Seoul Metro''"
      and tr_b = "[Get (Href (ascii ''https://opengov.seoul.go.kr/f/101''))]"]
  from mp [OF conjunct1 [OF t] 1]
  have 2: "\<exists>rep_b. process_attachment ex_env (ascii ''none'') (ascii ''Seoul Metro'') (ex_docs ! 0) ?a
         (load_seen (save_seen {|ascii ''101|https://opengov.seoul.go.kr/f/101''|}))
         [Get (Href (ascii ''https://opengov.seoul.go.kr/f/101''))] =
       (rep_b, load_seen (save_seen {|ascii ''101|https://opengov.seoul.go.kr/f/101''|}),
        [Get (Href (ascii ''https://opengov.seoul.go.kr/f/101''))])
       \<and> rep_summary rep_b = []"
    by (elim conjE)
  from 1 2 show ?thesis by (rule conjI)
qed

section \<open>The first loop of the quarter status\<close>

lemma status_strings:
  "ascii ''OK'' \<noteq> ascii ''LATE''" "ascii ''LATE'' \<noteq> ascii ''OK''"
  "ascii ''PENDING'' \<noteq> ascii ''OK''" "ascii ''MISSING'' \<noteq> ascii ''OK''"
  "ascii ''PENDING'' \<noteq> ascii ''LATE''" "ascii ''MISSING'' \<noteq> ascii ''LATE''"
  "ascii ''PENDING'' \<noteq> ascii ''MISSING''"
  by (simp_all add: ascii_def)

text \<open>One turn of the first loop, by the observation the document is.\<close>

lemma found_loop_skip:
  "observation orgs d = None \<Longrightarrow>
   found_loop orgs b (d # docs) found = found_loop orgs b docs found"
  by (auto simp: observation_def split: option.splits if_splits prod.splits)

lemma found_loop_obs:
  assumes "observation orgs d = Some key"
  shows "found_loop orgs b (d # docs) found =
     (case quarter_deadline (fst (snd key)) (snd (snd key)) b of
        Inl e \<Rightarrow> Inl e
      | Inr dl \<Rightarrow>
          found_loop orgs b docs
            (case map_of found key of
               None \<Rightarrow> found @ [(key, doc_status d dl)]
             | Some old \<Rightarrow>
                 if old \<noteq> ascii ''OK'' \<and> doc_status d dl = ascii ''OK''
                 then AList.update key (ascii ''OK'') found else found))"
  using assms
  by (auto simp: observation_def Let_def split: option.splits if_splits prod.splits sum.splits)

lemma doc_status_resolves:
  "quarter_deadline (fst (snd key)) (snd (snd key)) b = Inr dl \<Longrightarrow>
   doc_status d dl = (if resolves_ok b d key then ascii ''OK'' else ascii ''LATE'')"
  by (simp add: doc_status_def resolves_ok_def split: option.splits)

lemma found_loop_merged:
  "found_loop orgs b docs found = Inr found' \<Longrightarrow>
     map_of found' key = merged orgs b docs key (map_of found key)"
proof (induction docs arbitrary: found)
  case Nil
  then show ?case by (simp add: merged_def)
next
  case (Cons d docs)
  show ?case
  proof (cases "observation orgs d")
    case None
    with Cons.prems have "found_loop orgs b docs found = Inr found'"
      by (simp add: found_loop_skip del: found_loop.simps)
    from Cons.IH [OF this] None show ?thesis by (auto simp: merged_def)
  next
    case (Some k)
    from Cons.prems Some obtain dl where dl: "quarter_deadline (fst (snd k)) (snd (snd k)) b = Inr dl"
      by (cases "quarter_deadline (fst (snd k)) (snd (snd k)) b")
         (simp_all add: found_loop_obs del: found_loop.simps)
    let ?st = "doc_status d dl"
    let ?f1 = "case map_of found k of
               None \<Rightarrow> found @ [(k, ?st)]
             | Some old \<Rightarrow>
                 if old \<noteq> ascii ''OK'' \<and> ?st = ascii ''OK''
                 then AList.update k (ascii ''OK'') found else found"
    from Cons.prems Some dl have rec: "found_loop orgs b docs ?f1 = Inr found'"
      by (simp add: found_loop_obs del: found_loop.simps)
    have st: "?st = (if resolves_ok b d k then ascii ''OK'' else ascii ''LATE'')"
      using dl by (rule doc_status_resolves)
    have f1: "map_of ?f1 key =
        (if key = k then
           (case map_of found k of None \<Rightarrow> Some ?st
            | Some old \<Rightarrow> if old \<noteq> ascii ''OK'' \<and> ?st = ascii ''OK'' then Some (ascii ''OK'') else Some old)
         else map_of found key)"
      by (auto simp: update_conv' map_add_def split: option.splits)
    show ?thesis
      unfolding Cons.IH [OF rec] f1
      using Some st
      by (auto simp: merged_def status_strings split: option.splits)
  qed
qed

lemma found_loop_returns:
  "(\<exists>found'. found_loop orgs b docs found = Inr found') =
     (\<forall>d \<in> set docs. \<forall>key. observation orgs d = Some key \<longrightarrow>
        (\<exists>dl. quarter_deadline (fst (snd key)) (snd (snd key)) b = Inr dl))"
proof (induction docs arbitrary: found)
  case Nil
  then show ?case by simp
next
  case (Cons d docs)
  show ?case
  proof (cases "observation orgs d")
    case None
    with Cons.IH [of found] show ?thesis by (simp add: found_loop_skip del: found_loop.simps)
  next
    case (Some k)
    show ?thesis
    proof (cases "quarter_deadline (fst (snd k)) (snd (snd k)) b")
      case (Inl e)
      with Some have "found_loop orgs b (d # docs) found = Inl e"
        by (simp add: found_loop_obs del: found_loop.simps)
      moreover from Some Inl have "\<not> (\<forall>d \<in> set (d # docs). \<forall>key. observation orgs d = Some key \<longrightarrow>
          (\<exists>dl. quarter_deadline (fst (snd key)) (snd (snd key)) b = Inr dl))"
        by (cases k) auto
      ultimately show ?thesis by simp
    next
      case (Inr dl)
      with Some Cons.IH show ?thesis
        by (cases k) (auto simp add: found_loop_obs simp del: found_loop.simps)
    qed
  qed
qed

section \<open>The second loop of the quarter status\<close>

lemma result_quarters_step:
  "result_quarters found today b name (yq # quarters) result =
     (case result_value found today b (name, yq_year yq, yq_quarter yq) of
        Inl e \<Rightarrow> Inl e
      | Inr v \<Rightarrow> result_quarters found today b name quarters
                  (AList.update (name, yq_year yq, yq_quarter yq) v result))"
  by (simp add: result_value_def Let_def split: option.splits sum.splits)

lemma result_quarters_char:
  "result_quarters found today b name quarters result = Inr result' \<Longrightarrow>
     (distinct (map fst result) \<longrightarrow> distinct (map fst result'))
     \<and> fst ` set result' = fst ` set result \<union> (\<lambda>yq. (name, yq_year yq, yq_quarter yq)) ` set quarters
     \<and> (\<forall>key. map_of result' key =
           (if key \<in> (\<lambda>yq. (name, yq_year yq, yq_quarter yq)) ` set quarters
            then Some (projr (result_value found today b key)) else map_of result key))
     \<and> (\<forall>yq \<in> set quarters. \<exists>v. result_value found today b (name, yq_year yq, yq_quarter yq) = Inr v)"
proof (induction quarters arbitrary: result)
  case Nil
  then show ?case by simp
next
  case (Cons yq quarters)
  let ?k = "(name, yq_year yq, yq_quarter yq)"
  from Cons.prems obtain v where v: "result_value found today b ?k = Inr v"
    by (cases "result_value found today b ?k")
       (simp_all add: result_quarters_step del: result_quarters.simps)
  with Cons.prems have rec: "result_quarters found today b name quarters (AList.update ?k v result) = Inr result'"
    by (simp add: result_quarters_step del: result_quarters.simps)
  note ih = Cons.IH [OF rec]
  have 1: "distinct (map fst result) \<longrightarrow> distinct (map fst result')"
    using ih by (simp add: distinct_update)
  have 2: "fst ` set result' = fst ` set result \<union> (\<lambda>yq. (name, yq_year yq, yq_quarter yq)) ` set (yq # quarters)"
    using ih by (auto simp: dom_update [unfolded dom_map_of_conv_image_fst])
  have 3: "\<forall>key. map_of result' key =
           (if key \<in> (\<lambda>yq. (name, yq_year yq, yq_quarter yq)) ` set (yq # quarters)
            then Some (projr (result_value found today b key)) else map_of result key)"
    using ih v by (auto simp: update_conv')
  have 4: "\<forall>yq \<in> set (yq # quarters). \<exists>v. result_value found today b (name, yq_year yq, yq_quarter yq) = Inr v"
    using ih v by simp
  from 1 2 3 4 show ?case by blast
qed

lemma result_loop_char:
  "result_loop found today b quarters orgs result = Inr result' \<Longrightarrow>
     (distinct (map fst result) \<longrightarrow> distinct (map fst result'))
     \<and> fst ` set result' = fst ` set result
           \<union> (\<lambda>(org, yq). (org_name org, yq_year yq, yq_quarter yq)) ` (set orgs \<times> set quarters)
     \<and> (\<forall>key. map_of result' key =
           (if key \<in> (\<lambda>(org, yq). (org_name org, yq_year yq, yq_quarter yq)) ` (set orgs \<times> set quarters)
            then Some (projr (result_value found today b key)) else map_of result key))
     \<and> (\<forall>key \<in> (\<lambda>(org, yq). (org_name org, yq_year yq, yq_quarter yq)) ` (set orgs \<times> set quarters).
           \<exists>v. result_value found today b key = Inr v)"
proof (induction orgs arbitrary: result)
  case Nil
  then show ?case by simp
next
  case (Cons org orgs)
  let ?K = "\<lambda>os. (\<lambda>(org, yq). (org_name org, yq_year yq, yq_quarter yq)) ` (set os \<times> set quarters)"
  let ?Q = "(\<lambda>yq. (org_name org, yq_year yq, yq_quarter yq)) ` set quarters"
  from Cons.prems obtain r1 where
    r1: "result_quarters found today b (org_name org) quarters result = Inr r1"
    and rec: "result_loop found today b quarters orgs r1 = Inr result'"
    by (cases "result_quarters found today b (org_name org) quarters result") simp_all
  note q = result_quarters_char [OF r1]
  note q1 = q [THEN conjunct1] and q2 = q [THEN conjunct2, THEN conjunct1]
    and q3 = q [THEN conjunct2, THEN conjunct2, THEN conjunct1]
    and q4 = q [THEN conjunct2, THEN conjunct2, THEN conjunct2]
  note ih = Cons.IH [OF rec]
  note ih1 = ih [THEN conjunct1] and ih2 = ih [THEN conjunct2, THEN conjunct1]
    and ih3 = ih [THEN conjunct2, THEN conjunct2, THEN conjunct1]
    and ih4 = ih [THEN conjunct2, THEN conjunct2, THEN conjunct2]
  have K: "?K (org # orgs) = ?Q \<union> ?K orgs" by auto
  have 1: "distinct (map fst result) \<longrightarrow> distinct (map fst result')"
    using q1 ih1 by simp
  have 2: "fst ` set result' = fst ` set result \<union> ?K (org # orgs)"
    unfolding ih2 q2 K by (simp add: Un_assoc)
  have 3: "\<forall>key. map_of result' key =
           (if key \<in> ?K (org # orgs) then Some (projr (result_value found today b key))
            else map_of result key)"
  proof
    fix key
    from ih3 have "map_of result' key =
        (if key \<in> ?K orgs then Some (projr (result_value found today b key)) else map_of r1 key)"
      by (rule spec)
    moreover from q3 have "map_of r1 key =
        (if key \<in> ?Q then Some (projr (result_value found today b key)) else map_of result key)"
      by (rule spec)
    ultimately show "map_of result' key =
           (if key \<in> ?K (org # orgs) then Some (projr (result_value found today b key))
            else map_of result key)"
      unfolding K by simp
  qed
  have 4: "\<forall>key \<in> ?K (org # orgs). \<exists>v. result_value found today b key = Inr v"
  proof
    fix key
    assume "key \<in> ?K (org # orgs)"
    then consider "key \<in> ?Q" | "key \<in> ?K orgs" unfolding K by blast
    then show "\<exists>v. result_value found today b key = Inr v"
    proof cases
      case 1
      then obtain yq where "yq \<in> set quarters" "key = (org_name org, yq_year yq, yq_quarter yq)"
        by blast
      with q4 show ?thesis by blast
    next
      case 2
      with ih4 show ?thesis by (rule bspec)
    qed
  qed
  from 1 2 3 4 show ?case by (intro conjI)
qed

lemma result_value_cong:
  "map_of found = map_of found' \<Longrightarrow> result_value found today b key = result_value found' today b key"
  by (simp add: result_value_def)

lemma result_quarters_cong:
  "map_of found = map_of found' \<Longrightarrow>
   result_quarters found today b name quarters result =
   result_quarters found' today b name quarters result"
proof (induction quarters arbitrary: result)
  case Nil
  then show ?case by simp
next
  case (Cons yq quarters)
  then show ?case
    unfolding result_quarters_step
    by (simp add: result_value_cong [of found found'] split: sum.splits)
qed

lemma result_loop_cong:
  "map_of found = map_of found' \<Longrightarrow>
   result_loop found today b quarters orgs result = result_loop found' today b quarters orgs result"
proof (induction orgs arbitrary: result)
  case Nil
  then show ?case by simp
next
  case (Cons org orgs)
  then show ?case
    by (simp add: result_quarters_cong [of found found'] split: sum.splits)
qed

text \<open>What \<open>compute_quarter_status\<close> returns, when it returns.\<close>

lemma compute_quarter_status_char:
  assumes "compute_quarter_status orgs docs today b l = Inr result"
  shows "distinct (map fst result)"
    and "fst ` set result = report_keys orgs today"
    and "key \<in> report_keys orgs today \<Longrightarrow>
           \<exists>found. found_loop orgs b docs [] = Inr found
             \<and> (\<exists>v. result_value found today b key = Inr v \<and> map_of result key = Some v)
             \<and> map_of found key = merged orgs b docs key None"
proof -
  from assms obtain found where f: "found_loop orgs b docs [] = Inr found"
    and r: "result_loop found today b (report_quarters today) orgs [] = Inr result"
    by (cases "found_loop orgs b docs []") (simp_all add: compute_quarter_status_def)
  note c = result_loop_char [OF r]
  note c1 = c [THEN conjunct1] and c2 = c [THEN conjunct2, THEN conjunct1]
    and c3 = c [THEN conjunct2, THEN conjunct2, THEN conjunct1]
    and c4 = c [THEN conjunct2, THEN conjunct2, THEN conjunct2]
  from c1 show "distinct (map fst result)" by simp
  from c2 show k: "fst ` set result = report_keys orgs today" by (simp add: report_keys_def)
  assume key: "key \<in> report_keys orgs today"
  with c4 obtain v where v: "result_value found today b key = Inr v"
    unfolding report_keys_def by blast
  from c3 have "map_of result key =
      (if key \<in> report_keys orgs today then Some (projr (result_value found today b key))
       else map_of [] key)"
    unfolding report_keys_def by (rule spec)
  with key v have "map_of result key = Some v" by simp
  moreover have "map_of found key = merged orgs b docs key None"
    using found_loop_merged [OF f, of key] by simp
  ultimately show "\<exists>found. found_loop orgs b docs [] = Inr found
             \<and> (\<exists>v. result_value found today b key = Inr v \<and> map_of result key = Some v)
             \<and> map_of found key = merged orgs b docs key None"
    using f v by blast
qed

lemma compute_quarter_status_set:
  assumes "set docs' = set docs" "compute_quarter_status orgs docs today b l = Inr result"
  shows "compute_quarter_status orgs docs' today b l = Inr result"
proof -
  from assms(2) obtain found where f: "found_loop orgs b docs [] = Inr found"
    and r: "result_loop found today b (report_quarters today) orgs [] = Inr result"
    by (cases "found_loop orgs b docs []") (simp_all add: compute_quarter_status_def)
  from f have "\<exists>found'. found_loop orgs b docs [] = Inr found'" by blast
  then have "\<exists>found'. found_loop orgs b docs' [] = Inr found'"
    unfolding found_loop_returns assms(1) .
  then obtain found' where f': "found_loop orgs b docs' [] = Inr found'" by blast
  have "map_of found' key = map_of found key" for key
    unfolding found_loop_merged [OF f] found_loop_merged [OF f']
    by (simp only: merged_def assms(1))
  then have "map_of found' = map_of found" by (rule ext)
  from result_loop_cong [OF this] r
  have "result_loop found' today b (report_quarters today) orgs [] = Inr result" by simp
  with f' show ?thesis by (simp add: compute_quarter_status_def)
qed

lemma report_keys_card:
  assumes "distinct (map org_name orgs)"
  shows "card (report_keys orgs today) = 4 * length orgs"
proof -
  let ?f = "\<lambda>(org, yq). (org_name org, yq_year yq, yq_quarter yq)"
  let ?ty = "if d_month today \<le> 2 then d_year today - 1 else d_year today"
  have q: "report_quarters today =
      [YearQuarter ?ty 1, YearQuarter ?ty 2, YearQuarter ?ty 3, YearQuarter ?ty 4]"
    by (simp add: report_quarters_def upto_1_4 Let_def)
  have cq: "card (set (report_quarters today)) = 4"
    unfolding q by simp
  from assms have d: "distinct orgs" and i: "inj_on org_name (set orgs)"
    by (simp_all add: distinct_map)
  have "inj_on ?f (set orgs \<times> set (report_quarters today))"
  proof (rule inj_onI)
    fix x y
    assume x: "x \<in> set orgs \<times> set (report_quarters today)"
      and y: "y \<in> set orgs \<times> set (report_quarters today)" and e: "?f x = ?f y"
    obtain xo xq where x': "x = (xo, xq)" by (cases x)
    obtain yo yq where y': "y = (yo, yq)" by (cases y)
    from e x' y' have n: "org_name xo = org_name yo" and "yq_year xq = yq_year yq"
      "yq_quarter xq = yq_quarter yq" by simp_all
    then have "xq = yq" by (simp add: YearQuarter.expand)
    moreover from n x y x' y' i have "xo = yo" by (auto dest: inj_onD)
    ultimately show "x = y" using x' y' by simp
  qed
  then have "card (report_keys orgs today) = card (set orgs \<times> set (report_quarters today))"
    unfolding report_keys_def by (rule card_image)
  also have "\<dots> = card (set orgs) * card (set (report_quarters today))"
    by (rule card_cartesian_product)
  also have "\<dots> = 4 * length orgs" using cq d by (simp add: distinct_card)
  finally show ?thesis .
qed

lemma merged_None:
  "merged orgs b docs key None =
     (if \<exists>d \<in> set docs. observation orgs d = Some key \<and> resolves_ok b d key then Some (ascii ''OK'')
      else if \<exists>d \<in> set docs. observation orgs d = Some key then Some (ascii ''LATE'')
      else None)"
  by (auto simp: merged_def)

text \<open>
  C4. When \<open>compute_quarter_status\<close> returns, its result holds exactly one entry for every
  organization of the roster paired with every reporting quarter, and no other key; with
  distinct names in the roster these are four entries for each organization (twelve for
  three organizations). A pair that no document is an observation for has the status
  \<open>PENDING\<close> when \<open>today\<close> is not after the deadline of its quarter, and \<open>MISSING\<close>
  otherwise.
\<close>

theorem quarter_status_complete:
  assumes "compute_quarter_status orgs docs today b l = Inr result"
  shows "distinct (map fst result)
       \<and> set (map fst result) =
           {(org_name org, yq_year yq, yq_quarter yq) | org yq.
              org \<in> set orgs \<and> yq \<in> set (report_quarters today)}
       \<and> (distinct (map org_name orgs) \<longrightarrow> length result = 4 * length orgs)
       \<and> (\<forall>key \<in> set (map fst result).
             (\<forall>d \<in> set docs. observation orgs d \<noteq> Some key) \<longrightarrow>
             (\<exists>dl. quarter_deadline (fst (snd key)) (snd (snd key)) b = Inr dl
                   \<and> map_of result key =
                       Some (if date_le today dl then ascii ''PENDING'' else ascii ''MISSING'')))"
proof -
  note c = compute_quarter_status_char [OF assms]
  have rk: "report_keys orgs today =
      {(org_name org, yq_year yq, yq_quarter yq) | org yq.
         org \<in> set orgs \<and> yq \<in> set (report_quarters today)}"
    unfolding report_keys_def by auto
  have keys: "set (map fst result) = report_keys orgs today"
    using c(2) by simp
  have 3: "length result = 4 * length orgs" if "distinct (map org_name orgs)"
  proof -
    have "length result = card (set (map fst result))"
      using c(1) by (metis distinct_card length_map)
    with keys report_keys_card [OF that, of today] show ?thesis by simp
  qed
  have 4: "\<exists>dl. quarter_deadline (fst (snd key)) (snd (snd key)) b = Inr dl
                   \<and> map_of result key =
                       Some (if date_le today dl then ascii ''PENDING'' else ascii ''MISSING'')"
    if k: "key \<in> set (map fst result)" and n: "\<forall>d \<in> set docs. observation orgs d \<noteq> Some key"
    for key
  proof -
    from k keys have "key \<in> report_keys orgs today" by simp
    from c(3) [OF this] obtain found v where
      v: "result_value found today b key = Inr v" "map_of result key = Some v"
      and m: "map_of found key = merged orgs b docs key None" by blast
    from m n have "map_of found key = None" by (simp add: merged_None)
    with v show ?thesis
      by (auto simp: result_value_def split: sum.splits)
  qed
  from c(1) keys rk 3 4 show ?thesis by blast
qed

text \<open>
  C3. When \<open>compute_quarter_status\<close> returns, the status it gives a key that some
  document is an observation for is \<open>OK\<close> exactly when at least one of these observations
  resolves \<open>OK\<close> (no publication date, or one not after the deadline), and \<open>LATE\<close>
  exactly when all of them are late; every reported key with an observation has one of
  these two statuses; and the result is the same for every list of the same documents,
  in any order.
\<close>

theorem quarter_status_merge:
  assumes "compute_quarter_status orgs docs today b l = Inr result"
  shows "(\<forall>key st. map_of result key = Some st \<and> (\<exists>d \<in> set docs. observation orgs d = Some key) \<longrightarrow>
            (st = ascii ''OK'' \<longleftrightarrow>
               (\<exists>d \<in> set docs. observation orgs d = Some key \<and> resolves_ok b d key))
            \<and> (st = ascii ''LATE'' \<longleftrightarrow>
               (\<forall>d \<in> set docs. observation orgs d = Some key \<longrightarrow> \<not> resolves_ok b d key)))
       \<and> (\<forall>key \<in> set (map fst result). (\<exists>d \<in> set docs. observation orgs d = Some key) \<longrightarrow>
            map_of result key = Some (ascii ''OK'') \<or> map_of result key = Some (ascii ''LATE''))
       \<and> (\<forall>docs'. set docs' = set docs \<longrightarrow>
            compute_quarter_status orgs docs' today b l = Inr result)"
proof -
  note c = compute_quarter_status_char [OF assms]
  have val: "map_of result key = merged orgs b docs key None"
    if k: "key \<in> report_keys orgs today" and o: "\<exists>d \<in> set docs. observation orgs d = Some key"
    for key
  proof -
    from c(3) [OF k] obtain found v where
      v: "result_value found today b key = Inr v" "map_of result key = Some v"
      and m: "map_of found key = merged orgs b docs key None" by blast
    from o have "merged orgs b docs key None \<noteq> None" by (simp add: merged_None)
    with m v show ?thesis by (auto simp: result_value_def)
  qed
  have 1: "(st = ascii ''OK'' \<longleftrightarrow>
               (\<exists>d \<in> set docs. observation orgs d = Some key \<and> resolves_ok b d key))
            \<and> (st = ascii ''LATE'' \<longleftrightarrow>
               (\<forall>d \<in> set docs. observation orgs d = Some key \<longrightarrow> \<not> resolves_ok b d key))"
    if "map_of result key = Some st \<and> (\<exists>d \<in> set docs. observation orgs d = Some key)"
    for key st
  proof -
    from that have s: "map_of result key = Some st"
      and o: "\<exists>d \<in> set docs. observation orgs d = Some key" by simp_all
    from s have "key \<in> fst ` set result" by (rule map_of_SomeD [THEN imageI [of _ _ fst], simplified])
    with c(2) have "key \<in> report_keys orgs today" by simp
    from val [OF this o] s have "merged orgs b docs key None = Some st" by simp
    with o show ?thesis
      by (auto simp: merged_None status_strings split: if_splits)
  qed
  have 2: "map_of result key = Some (ascii ''OK'') \<or> map_of result key = Some (ascii ''LATE'')"
    if "key \<in> set (map fst result)" "\<exists>d \<in> set docs. observation orgs d = Some key" for key
  proof -
    from that(1) c(2) have "key \<in> report_keys orgs today" by simp
    from val [OF this that(2)] that(2) show ?thesis by (simp add: merged_None)
  qed
  have 3: "compute_quarter_status orgs docs' today b l = Inr result" if "set docs' = set docs" for docs'
    using that assms by (rule compute_quarter_status_set)
  from 1 2 3 show ?thesis by blast
qed

lemma ex_observation:
  "observation ex_orgs (DocItem n ex_title1 p u) = Some (ascii ''Seoul Metro'', 2025, 1)"
  "observation ex_orgs (DocItem n ex_title2 p u) = Some (ascii ''Seoul Metro'', 2025, 2)"
  by (simp_all add: observation_def ex_match ex_quarter)

theorem quarter_status_complete_witness:
  "compute_quarter_status ex_orgs ex_docs (Date 2025 5 15) 30 8 =
     Inr [((ascii ''Seoul Metro'', 2025, 1), ascii ''OK''),
          ((ascii ''Seoul Metro'', 2025, 2), ascii ''OK''),
          ((ascii ''Seoul Metro'', 2025, 3), ascii ''PENDING''),
          ((ascii ''Seoul Metro'', 2025, 4), ascii ''PENDING'')]
   \<and> distinct (map org_name ex_orgs) \<and> 4 * length ex_orgs = 4
   \<and> (\<exists>dl. quarter_deadline 2025 3 30 = Inr dl
         \<and> map_of ([((ascii ''Seoul Metro'', 2025, 1), ascii ''OK''),
                    ((ascii ''Seoul Metro'', 2025, 2), ascii ''OK''),
                    ((ascii ''Seoul Metro'', 2025, 3), ascii ''PENDING''),
                    ((ascii ''Seoul Metro'', 2025, 4), ascii ''PENDING'')]
                   :: (status_key \<times> pystr) list)
               (ascii ''Seoul Metro'', 2025, 3)
             = Some (if date_le (Date 2025 5 15) dl then ascii ''PENDING'' else ascii ''MISSING''))"
proof -
  let ?R = "[((ascii ''Seoul Metro'', 2025, 1), ascii ''OK''),
          ((ascii ''Seoul Metro'', 2025, 2), ascii ''OK''),
          ((ascii ''Seoul Metro'', 2025, 3), ascii ''PENDING''),
          ((ascii ''Seoul Metro'', 2025, 4), ascii ''PENDING'')] :: (status_key \<times> pystr) list"
  have r: "compute_quarter_status ex_orgs ex_docs (Date 2025 5 15) 30 8 = Inr ?R"
    by (rule ex_status)
  note t = quarter_status_complete [OF r]
  have d: "distinct (map org_name ex_orgs)" "4 * length ex_orgs = 4"
    by (simp_all add: ex_orgs_def)
  have k: "(ascii ''Seoul Metro'', 2025, 3) \<in> set (map fst ?R)" by simp
  have n: "\<forall>d \<in> set ex_docs. observation ex_orgs d \<noteq> Some (ascii ''Seoul Metro'', 2025, 3)"
    by (simp add: ex_docs_def ex_observation)
  from t have "\<forall>key \<in> set (map fst ?R).
             (\<forall>d \<in> set ex_docs. observation ex_orgs d \<noteq> Some key) \<longrightarrow>
             (\<exists>dl. quarter_deadline (fst (snd key)) (snd (snd key)) 30 = Inr dl
                   \<and> map_of ?R key =
                       Some (if date_le (Date 2025 5 15) dl then ascii ''PENDING'' else ascii ''MISSING''))"
    by (elim conjE)
  from bspec [OF this k] n
  have "\<exists>dl. quarter_deadline 2025 3 30 = Inr dl
         \<and> map_of ?R (ascii ''Seoul Metro'', 2025, 3)
             = Some (if date_le (Date 2025 5 15) dl then ascii ''PENDING'' else ascii ''MISSING'')"
    by simp
  with r d show ?thesis by (intro conjI)
qed

theorem quarter_status_merge_witness:
  "compute_quarter_status ex_orgs
       [DocItem (ascii ''103'') ex_title1 (Some (Date 2025 6 1)) [], ex_docs ! 0]
       (Date 2025 5 15) 30 8 =
     Inr [((ascii ''Seoul Metro'', 2025, 1), ascii ''OK''),
          ((ascii ''Seoul Metro'', 2025, 2), ascii ''PENDING''),
          ((ascii ''Seoul Metro'', 2025, 3), ascii ''PENDING''),
          ((ascii ''Seoul Metro'', 2025, 4), ascii ''PENDING'')]
   \<and> compute_quarter_status ex_orgs
       [ex_docs ! 0, DocItem (ascii ''103'') ex_title1 (Some (Date 2025 6 1)) []]
       (Date 2025 5 15) 30 8 =
     Inr [((ascii ''Seoul Metro'', 2025, 1), ascii ''OK''),
          ((ascii ''Seoul Metro'', 2025, 2), ascii ''PENDING''),
          ((ascii ''Seoul Metro'', 2025, 3), ascii ''PENDING''),
          ((ascii ''Seoul Metro'', 2025, 4), ascii ''PENDING'')]
   \<and> \<not> resolves_ok 30 (DocItem (ascii ''103'') ex_title1 (Some (Date 2025 6 1)) [])
         (ascii ''Seoul Metro'', 2025, 1)
   \<and> resolves_ok 30 (ex_docs ! 0) (ascii ''Seoul Metro'', 2025, 1)
   \<and> compute_quarter_status ex_orgs
       [DocItem (ascii ''103'') ex_title1 (Some (Date 2025 6 1)) []] (Date 2025 5 15) 30 8 =
     Inr [((ascii ''Seoul Metro'', 2025, 1), ascii ''LATE''),
          ((ascii ''Seoul Metro'', 2025, 2), ascii ''PENDING''),
          ((ascii ''Seoul Metro'', 2025, 3), ascii ''PENDING''),
          ((ascii ''Seoul Metro'', 2025, 4), ascii ''PENDING'')]"
proof -
  let ?late = "DocItem (ascii ''103'') ex_title1 (Some (Date 2025 6 1)) []"
  let ?R = "[((ascii ''Seoul Metro'', 2025, 1), ascii ''OK''),
          ((ascii ''Seoul Metro'', 2025, 2), ascii ''PENDING''),
          ((ascii ''Seoul Metro'', 2025, 3), ascii ''PENDING''),
          ((ascii ''Seoul Metro'', 2025, 4), ascii ''PENDING'')] :: (status_key \<times> pystr) list"
  have d0: "ex_docs ! 0 = DocItem (ascii ''101'') ex_title1 (Some (Date 2025 4 10))
        (ascii ''https://opengov.seoul.go.kr/public/101'')"
    by (simp add: ex_docs_def)
  have q: "report_quarters (Date 2025 5 15) =
     [YearQuarter 2025 1, YearQuarter 2025 2, YearQuarter 2025 3, YearQuarter 2025 4]"
    by (simp add: report_quarters_def upto_rec1)
  have f1: "found_loop ex_orgs 30 [?late, ex_docs ! 0] [] =
      Inr [((ascii ''Seoul Metro'', 2025, 1), ascii ''OK'')]"
    by (simp add: d0 ex_match ex_quarter ex_deadline doc_status_def date_le_def status_strings)
  have f2: "found_loop ex_orgs 30 [?late] [] =
      Inr [((ascii ''Seoul Metro'', 2025, 1), ascii ''LATE'')]"
    by (simp add: ex_match ex_quarter ex_deadline doc_status_def date_le_def)
  have r1: "result_loop [((ascii ''Seoul Metro'', 2025, 1), st)] (Date 2025 5 15) 30
        [YearQuarter 2025 1, YearQuarter 2025 2, YearQuarter 2025 3, YearQuarter 2025 4]
        ex_orgs [] =
      Inr [((ascii ''Seoul Metro'', 2025, 1), st),
          ((ascii ''Seoul Metro'', 2025, 2), ascii ''PENDING''),
          ((ascii ''Seoul Metro'', 2025, 3), ascii ''PENDING''),
          ((ascii ''Seoul Metro'', 2025, 4), ascii ''PENDING'')]" for st
    by (simp add: ex_orgs_def ex_deadline date_le_def)
  have c1: "compute_quarter_status ex_orgs [?late, ex_docs ! 0] (Date 2025 5 15) 30 8 = Inr ?R"
    by (simp add: compute_quarter_status_def f1 q r1 del: found_loop.simps result_loop.simps)
  have c3: "compute_quarter_status ex_orgs [?late] (Date 2025 5 15) 30 8 =
     Inr [((ascii ''Seoul Metro'', 2025, 1), ascii ''LATE''),
          ((ascii ''Seoul Metro'', 2025, 2), ascii ''PENDING''),
          ((ascii ''Seoul Metro'', 2025, 3), ascii ''PENDING''),
          ((ascii ''Seoul Metro'', 2025, 4), ascii ''PENDING'')]"
    by (simp add: compute_quarter_status_def f2 q r1 del: found_loop.simps result_loop.simps)
  note t = quarter_status_merge [OF c1]
  from t have "\<forall>docs'. set docs' = set [?late, ex_docs ! 0] \<longrightarrow>
      compute_quarter_status ex_orgs docs' (Date 2025 5 15) 30 8 = Inr ?R"
    by (elim conjE)
  from spec [OF this, of "[ex_docs ! 0, ?late]"]
  have c2: "compute_quarter_status ex_orgs [ex_docs ! 0, ?late] (Date 2025 5 15) 30 8 = Inr ?R"
    by auto
  have n: "\<not> resolves_ok 30 ?late (ascii ''Seoul Metro'', 2025, 1)"
    "resolves_ok 30 (ex_docs ! 0) (ascii ''Seoul Metro'', 2025, 1)"
    by (simp_all add: resolves_ok_def d0 ex_deadline date_le_def)
  from c1 c2 n c3 show ?thesis by (intro conjI)
qed

section \<open>The loose date\<close>

lemma re_search_Some:
  "re_search m s = Some r \<longleftrightarrow>
     (\<exists>pre t. s = pre @ t \<and> m t = Some r
        \<and> (\<forall>pre' t'. s = pre' @ t' \<and> length pre' < length pre \<longrightarrow> m t' = None))"
proof (induction s)
  case Nil
  then show ?case by auto
next
  case (Cons c cs)
  show ?case
  proof (cases "m (c # cs)")
    case (Some r')
    have "(\<exists>pre t. c # cs = pre @ t \<and> m t = Some r
        \<and> (\<forall>pre' t'. c # cs = pre' @ t' \<and> length pre' < length pre \<longrightarrow> m t' = None))
        \<longleftrightarrow> r' = r"
    proof
      assume "\<exists>pre t. c # cs = pre @ t \<and> m t = Some r
        \<and> (\<forall>pre' t'. c # cs = pre' @ t' \<and> length pre' < length pre \<longrightarrow> m t' = None)"
      then obtain pre t where p: "c # cs = pre @ t" "m t = Some r"
        "\<forall>pre' t'. c # cs = pre' @ t' \<and> length pre' < length pre \<longrightarrow> m t' = None" by blast
      show "r' = r"
      proof (cases pre)
        case Nil
        with p Some show ?thesis by simp
      next
        case (Cons a pre2)
        then have "c # cs = [] @ (c # cs) \<and> length ([]::pystr) < length pre" by simp
        with p(3) have "m (c # cs) = None" by blast
        with Some show ?thesis by simp
      qed
    next
      assume "r' = r"
      with Some have "c # cs = [] @ (c # cs) \<and> m (c # cs) = Some r
        \<and> (\<forall>pre' t'. c # cs = pre' @ t' \<and> length pre' < length ([]::pystr) \<longrightarrow> m t' = None)"
        by simp
      then show "\<exists>pre t. c # cs = pre @ t \<and> m t = Some r
        \<and> (\<forall>pre' t'. c # cs = pre' @ t' \<and> length pre' < length pre \<longrightarrow> m t' = None)"
        by blast
    qed
    with Some show ?thesis by simp
  next
    case None
    have "(\<exists>pre t. c # cs = pre @ t \<and> m t = Some r
        \<and> (\<forall>pre' t'. c # cs = pre' @ t' \<and> length pre' < length pre \<longrightarrow> m t' = None))
      \<longleftrightarrow> (\<exists>pre t. cs = pre @ t \<and> m t = Some r
        \<and> (\<forall>pre' t'. cs = pre' @ t' \<and> length pre' < length pre \<longrightarrow> m t' = None))"
      (is "?L \<longleftrightarrow> ?R")
    proof
      assume ?L
      then obtain pre t where p: "c # cs = pre @ t" "m t = Some r"
        "\<forall>pre' t'. c # cs = pre' @ t' \<and> length pre' < length pre \<longrightarrow> m t' = None" by blast
      from p None obtain pre2 where pre: "pre = c # pre2" "cs = pre2 @ t"
        by (cases pre) auto
      have "\<forall>pre' t'. cs = pre' @ t' \<and> length pre' < length pre2 \<longrightarrow> m t' = None"
      proof (intro allI impI)
        fix pre' t'
        assume "cs = pre' @ t' \<and> length pre' < length pre2"
        then have "c # cs = (c # pre') @ t' \<and> length (c # pre') < length pre"
          using pre by simp
        with p(3) show "m t' = None" by blast
      qed
      with pre p(2) show ?R by blast
    next
      assume ?R
      then obtain pre t where p: "cs = pre @ t" "m t = Some r"
        "\<forall>pre' t'. cs = pre' @ t' \<and> length pre' < length pre \<longrightarrow> m t' = None" by blast
      have "\<forall>pre' t'. c # cs = pre' @ t' \<and> length pre' < length (c # pre) \<longrightarrow> m t' = None"
      proof (intro allI impI)
        fix pre' t'
        assume a: "c # cs = pre' @ t' \<and> length pre' < length (c # pre)"
        show "m t' = None"
        proof (cases pre')
          case Nil
          with a None show ?thesis by simp
        next
          case (Cons a' pre2)
          with a have "cs = pre2 @ t' \<and> length pre2 < length pre" by simp
          with p(3) show ?thesis by blast
        qed
      qed
      moreover from p(1) have "c # cs = (c # pre) @ t" by simp
      ultimately show ?L using p(2) by blast
    qed
    with None Cons.IH show ?thesis by simp
  qed
qed

lemma digits_n_Some:
  "digits_n k s = Some (g, r) \<longleftrightarrow> s = g @ r \<and> length g = k \<and> list_all is_digit g"
  by (auto simp: digits_n_def min_def)

lemma sep_not_digit: "is_date_sep c \<Longrightarrow> \<not> is_digit c"
  by (auto simp: is_date_sep_def is_digit_low)

lemma sep_then_Some:
  "sep_then k s = Some x \<longleftrightarrow> (\<exists>c r. s = c # r \<and> is_date_sep c \<and> k r = Some x)"
  by (auto simp: sep_then_def split: list.splits)

lemma first_some_two:
  "first_some f [a, b] = Some x \<longleftrightarrow> (f a = Some x \<or> (f a = None \<and> f b = Some x))"
  by (auto split: option.splits)

lemma digits_n_None:
  "digits_n k s = None \<longleftrightarrow> \<not> (k \<le> length s \<and> list_all is_digit (take k s))"
  by (simp add: digits_n_def)

text \<open>The day: two digits when two follow, else one.\<close>

lemma day_Some:
  "first_some (\<lambda>j. case digits_n j r of None \<Rightarrow> None | Some (d, u) \<Rightarrow> Some (y, mo, d)) [2, 1]
     = Some (y', mo', d) \<longleftrightarrow>
   y' = y \<and> mo' = mo \<and> list_all is_digit d
   \<and> (\<exists>rest. r = d @ rest
         \<and> (length d = 2 \<or> (length d = 1 \<and> (rest = [] \<or> \<not> is_digit (hd rest)))))"
  (is "?L \<longleftrightarrow> ?R")
proof
  assume ?L
  then consider
      (two) u where "digits_n 2 r = Some (d, u)" "y' = y" "mo' = mo"
    | (one) u where "digits_n 2 r = None" "digits_n 1 r = Some (d, u)" "y' = y" "mo' = mo"
    unfolding first_some_two by (auto split: option.splits)
  then show ?R
  proof cases
    case two
    then show ?thesis by (auto simp: digits_n_Some)
  next
    case one
    from one(2) have r: "r = d @ u" "length d = 1" "list_all is_digit d"
      by (simp_all add: digits_n_Some)
    then obtain c where c: "d = [c]" by (cases d) auto
    from one(1) r c have "u = [] \<or> \<not> is_digit (hd u)"
      by (cases u) (auto simp: digits_n_None)
    with r one show ?thesis by auto
  qed
next
  assume ?R
  then obtain rest where r: "y' = y" "mo' = mo" "list_all is_digit d" "r = d @ rest"
    "length d = 2 \<or> (length d = 1 \<and> (rest = [] \<or> \<not> is_digit (hd rest)))" by blast
  from r(5) show ?L
  proof
    assume "length d = 2"
    with r have "digits_n 2 r = Some (d, rest)" by (simp add: digits_n_Some)
    with r show ?L by (simp add: first_some_two)
  next
    assume a: "length d = 1 \<and> (rest = [] \<or> \<not> is_digit (hd rest))"
    then obtain c where c: "d = [c]" by (cases d) auto
    from a r c have "digits_n 2 r = None"
      by (cases rest) (auto simp: digits_n_None)
    moreover from a r have "digits_n 1 r = Some (d, rest)" by (simp add: digits_n_Some)
    ultimately show ?L using r by (simp add: first_some_two)
  qed
qed

text \<open>The month, the second separator and the day.\<close>

lemma month_Some:
  "first_some (\<lambda>k. case digits_n k r of
       None \<Rightarrow> None
     | Some (mo, r2) \<Rightarrow>
         sep_then (\<lambda>r3.
           first_some (\<lambda>j. case digits_n j r3 of None \<Rightarrow> None
                           | Some (d, u) \<Rightarrow> Some (y, mo, d)) [2, 1]) r2) [2, 1]
     = Some (y', mo, d) \<longleftrightarrow>
   y' = y \<and> list_all is_digit mo \<and> (length mo = 1 \<or> length mo = 2) \<and> list_all is_digit d
   \<and> (\<exists>s2 rest. r = mo @ [s2] @ d @ rest \<and> is_date_sep s2
         \<and> (length d = 2 \<or> (length d = 1 \<and> (rest = [] \<or> \<not> is_digit (hd rest)))))"
  (is "?L \<longleftrightarrow> ?R")
proof
  let ?day = "\<lambda>mo r3. first_some (\<lambda>j. case digits_n j r3 of None \<Rightarrow> None
                           | Some (d, u) \<Rightarrow> Some (y, mo, d)) [2, 1]"
  assume ?L
  then obtain k m r2 where k: "k = 2 \<or> k = 1" "digits_n k r = Some (m, r2)"
    "sep_then (?day m) r2 = Some (y', mo, d)"
    unfolding first_some_two by (auto split: option.splits)
  from k(3) obtain s2 r3 where s: "r2 = s2 # r3" "is_date_sep s2" "?day m r3 = Some (y', mo, d)"
    unfolding sep_then_Some by blast
  from s(3) have d: "y' = y" "mo = m" "list_all is_digit d"
    "\<exists>rest. r3 = d @ rest
         \<and> (length d = 2 \<or> (length d = 1 \<and> (rest = [] \<or> \<not> is_digit (hd rest))))"
    unfolding day_Some by simp_all
  from k(2) have m: "r = m @ r2" "length m = k" "list_all is_digit m"
    by (simp_all add: digits_n_Some)
  from d m s k(1) show ?R by auto
next
  let ?day = "\<lambda>mo r3. first_some (\<lambda>j. case digits_n j r3 of None \<Rightarrow> None
                           | Some (d, u) \<Rightarrow> Some (y, mo, d)) [2, 1]"
  assume ?R
  then obtain s2 rest where r: "y' = y" "list_all is_digit mo" "length mo = 1 \<or> length mo = 2"
    "list_all is_digit d" "r = mo @ [s2] @ d @ rest" "is_date_sep s2"
    "length d = 2 \<or> (length d = 1 \<and> (rest = [] \<or> \<not> is_digit (hd rest)))" by blast
  have day: "?day mo (d @ rest) = Some (y', mo, d)"
    unfolding day_Some using r by simp
  have sep: "sep_then (?day mo) (s2 # d @ rest) = Some (y', mo, d)"
    unfolding sep_then_Some using r(6) day by simp
  from r(3) show ?L
  proof
    assume "length mo = 2"
    with r have "digits_n 2 r = Some (mo, s2 # d @ rest)" by (simp add: digits_n_Some)
    with sep show ?L by (simp add: first_some_two)
  next
    assume a: "length mo = 1"
    then obtain c where c: "mo = [c]" by (cases mo) auto
    from r c sep_not_digit [OF r(6)] have "digits_n 2 r = None"
      by (simp add: digits_n_None)
    moreover from a r have "digits_n 1 r = Some (mo, s2 # d @ rest)" by (simp add: digits_n_Some)
    ultimately show ?L using sep by (simp add: first_some_two)
  qed
qed

lemma date_re_at_Some: "date_re_at t = Some (y, mo, d) \<longleftrightarrow> date_shape t y mo d"
proof
  assume "date_re_at t = Some (y, mo, d)"
  then obtain y0 r where y0: "digits_n 4 t = Some (y0, r)"
    and s: "sep_then (\<lambda>r1.
            first_some (\<lambda>k. case digits_n k r1 of
                None \<Rightarrow> None
              | Some (mo, r2) \<Rightarrow>
                  sep_then (\<lambda>r3.
                    first_some (\<lambda>j. case digits_n j r3 of None \<Rightarrow> None
                           | Some (d, u) \<Rightarrow> Some (y0, mo, d)) [2, 1]) r2) [2, 1]) r
          = Some (y, mo, d)"
    by (auto simp: date_re_at_def split: option.splits)
  from s obtain s1 r1 where s1: "r = s1 # r1" "is_date_sep s1"
    and m: "first_some (\<lambda>k. case digits_n k r1 of
                None \<Rightarrow> None
              | Some (mo, r2) \<Rightarrow>
                  sep_then (\<lambda>r3.
                    first_some (\<lambda>j. case digits_n j r3 of None \<Rightarrow> None
                           | Some (d, u) \<Rightarrow> Some (y0, mo, d)) [2, 1]) r2) [2, 1]
          = Some (y, mo, d)"
    unfolding sep_then_Some by blast
  from m [unfolded month_Some] obtain s2 rest where
    r: "y = y0" "list_all is_digit mo" "length mo = 1 \<or> length mo = 2" "list_all is_digit d"
      "r1 = mo @ [s2] @ d @ rest" "is_date_sep s2"
      "length d = 2 \<or> (length d = 1 \<and> (rest = [] \<or> \<not> is_digit (hd rest)))" by blast
  from y0 have y: "t = y0 @ r" "length y0 = 4" "list_all is_digit y0"
    by (simp_all add: digits_n_Some)
  have "t = y @ [s1] @ mo @ [s2] @ d @ rest" using y s1 r by simp
  with y r s1 show "date_shape t y mo d"
    unfolding date_shape_def by (intro exI [of _ s1] exI [of _ s2] exI [of _ rest]) auto
next
  assume "date_shape t y mo d"
  then obtain s1 s2 rest where
    r: "t = y @ [s1] @ mo @ [s2] @ d @ rest" "length y = 4" "list_all is_digit y" "is_date_sep s1"
      "length mo = 1 \<or> length mo = 2" "list_all is_digit mo" "is_date_sep s2"
      "length d = 1 \<or> length d = 2" "list_all is_digit d"
      "length d = 1 \<longrightarrow> rest = [] \<or> \<not> is_digit (hd rest)"
    unfolding date_shape_def by blast
  have y: "digits_n 4 t = Some (y, [s1] @ mo @ [s2] @ d @ rest)"
    using r by (simp add: digits_n_Some)
  have m: "first_some (\<lambda>k. case digits_n k (mo @ [s2] @ d @ rest) of
                None \<Rightarrow> None
              | Some (mo, r2) \<Rightarrow>
                  sep_then (\<lambda>r3.
                    first_some (\<lambda>j. case digits_n j r3 of None \<Rightarrow> None
                           | Some (d, u) \<Rightarrow> Some (y, mo, d)) [2, 1]) r2) [2, 1]
          = Some (y, mo, d)"
    unfolding month_Some using r by auto
  show "date_re_at t = Some (y, mo, d)"
    unfolding date_re_at_def y using r(4) m by (simp add: sep_then_def)
qed

lemma date_re_at_None: "date_re_at t = None \<longleftrightarrow> \<not> (\<exists>y mo d. date_shape t y mo d)"
proof (cases "date_re_at t")
  case None
  then have "\<not> date_shape t y mo d" for y mo d
    unfolding date_re_at_Some [symmetric] by simp
  with None show ?thesis by simp
next
  case (Some p)
  obtain y mo d where "p = (y, mo, d)" by (cases p)
  with Some have "date_shape t y mo d" unfolding date_re_at_Some [symmetric] by simp
  then have "\<exists>y mo d. date_shape t y mo d" by blast
  with Some show ?thesis by simp
qed

lemma search_date_first_match:
  "re_search date_re_at s = Some (y, mo, d) \<longleftrightarrow>
     (\<exists>t. first_match (\<lambda>t. \<exists>y mo d. date_shape t y mo d) s t \<and> date_shape t y mo d)"
proof
  assume "re_search date_re_at s = Some (y, mo, d)"
  then obtain pre t where p: "s = pre @ t" "date_re_at t = Some (y, mo, d)"
    "\<forall>pre' t'. s = pre' @ t' \<and> length pre' < length pre \<longrightarrow> date_re_at t' = None"
    unfolding re_search_Some by blast
  from p(2) have sh: "date_shape t y mo d" by (simp add: date_re_at_Some)
  from p(3) have "\<forall>pre' t'. s = pre' @ t' \<and> length pre' < length pre \<longrightarrow>
      \<not> (\<exists>y mo d. date_shape t' y mo d)"
    by (simp only: date_re_at_None)
  with p(1) sh have "first_match (\<lambda>t. \<exists>y mo d. date_shape t y mo d) s t"
    unfolding first_match_def by blast
  with sh show "\<exists>t. first_match (\<lambda>t. \<exists>y mo d. date_shape t y mo d) s t \<and> date_shape t y mo d"
    by blast
next
  assume "\<exists>t. first_match (\<lambda>t. \<exists>y mo d. date_shape t y mo d) s t \<and> date_shape t y mo d"
  then obtain t pre where p: "s = pre @ t" "date_shape t y mo d"
    "\<forall>pre' t'. s = pre' @ t' \<and> length pre' < length pre \<longrightarrow>
      \<not> (\<exists>y mo d. date_shape t' y mo d)"
    unfolding first_match_def by blast
  from p(3) have "\<forall>pre' t'. s = pre' @ t' \<and> length pre' < length pre \<longrightarrow> date_re_at t' = None"
    by (simp only: date_re_at_None)
  moreover from p(2) have "date_re_at t = Some (y, mo, d)" by (simp add: date_re_at_Some)
  ultimately show "re_search date_re_at s = Some (y, mo, d)"
    unfolding re_search_Some using p(1) by blast
qed

text \<open>
  C7, as the program has it. \<open>parse_date_loose\<close> returns a date exactly when the first
  match of its pattern in the text (the leftmost four digits followed by a separator, one
  or two digits, a separator and one or two digits, where the two separators may differ
  and the day takes two digits whenever two follow) is a calendar date, and it returns
  that date; in every other case it returns no date. It never raises: the only exception,
  that of the \<open>date\<close> constructor, is caught.
\<close>

theorem parse_date_loose_first_match:
  "parse_date_loose s = Some dt \<longleftrightarrow>
     (\<exists>t y mo d. first_match (\<lambda>t. \<exists>y mo d. date_shape t y mo d) s t \<and> date_shape t y mo d
        \<and> py_date (int_of_digits y) (int_of_digits mo) (int_of_digits d) = Inr dt)"
proof -
  have "parse_date_loose s = Some dt \<longleftrightarrow>
      (\<exists>y mo d. re_search date_re_at s = Some (y, mo, d)
         \<and> py_date (int_of_digits y) (int_of_digits mo) (int_of_digits d) = Inr dt)"
    by (auto simp: parse_date_loose_def split: option.splits sum.splits)
  then show ?thesis by (simp only: search_date_first_match) blast
qed

lemma date_text_eval:
  "parse_date_loose (ascii ''2025-01/02'') = Some (Date 2025 1 2)"
  "parse_date_loose (ascii ''2025-13-01 2025-01-02'') = None"
  "parse_date_loose (ascii ''2025-1-32'') = None"
  by (simp_all add: parse_date_eval)

text \<open>
  The claim fails in both directions: a text whose separators differ gives a date, and a
  text that contains a date gives none when an earlier match is not a calendar date, or
  when the day of the match takes a second digit.
\<close>

theorem parse_date_loose_counterexample:
  "parse_date_loose (ascii ''2025-01/02'') = Some (Date 2025 1 2)
   \<and> \<not> spec_contains_date (ascii ''2025-01/02'')
   \<and> parse_date_loose (ascii ''2025-13-01 2025-01-02'') = None
   \<and> spec_contains_date (ascii ''2025-13-01 2025-01-02'')
   \<and> parse_date_loose (ascii ''2025-1-32'') = None
   \<and> spec_contains_date (ascii ''2025-1-32'')"
proof -
  have 1: "\<not> spec_contains_date (ascii ''2025-01/02'')"
    by (simp add: ascii_def spec_date_at_def is_date_sep_def is_digit_low)
  have 2: "spec_date_at (ascii ''2025-01-02'') 2 2"
    by (simp add: ascii_def spec_date_at_def is_date_sep_def is_digit_low digit_value_low
        int_of_digits_def date_eval)
  have 3: "spec_date_at (ascii ''2025-1-32'') 1 1"
    by (simp add: ascii_def spec_date_at_def is_date_sep_def is_digit_low digit_value_low
        int_of_digits_def date_eval)
  have a: "ascii ''2025-13-01 2025-01-02'' = ascii ''2025-13-01 '' @ ascii ''2025-01-02''"
    by (simp add: ascii_def)
  have suffix: "spec_contains_date t \<Longrightarrow> spec_contains_date (p @ t)" for p t
    by (induction p) auto
  have here: "spec_date_at t k j \<Longrightarrow> k = 1 \<or> k = 2 \<Longrightarrow> j = 1 \<or> j = 2 \<Longrightarrow> spec_contains_date t"
    for t k j
  proof (cases t)
    case Nil
    assume "spec_date_at t k j"
    with Nil show ?thesis by (simp add: spec_date_at_def)
  next
    case (Cons c cs)
    assume "spec_date_at t k j" "k = 1 \<or> k = 2" "j = 1 \<or> j = 2"
    with Cons show ?thesis by auto
  qed
  from 2 have "spec_contains_date (ascii ''2025-01-02'')" by (rule here) simp_all
  then have 4: "spec_contains_date (ascii ''2025-13-01 2025-01-02'')"
    unfolding a by (rule suffix)
  from 3 have 5: "spec_contains_date (ascii ''2025-1-32'')" by (rule here) simp_all
  from date_text_eval 1 4 5 show ?thesis by (intro conjI)
qed

theorem parse_date_loose_first_match_witness:
  "parse_date_loose (ascii ''2025-01/02'') = Some (Date 2025 1 2)
   \<and> (\<exists>t y mo d. first_match (\<lambda>t. \<exists>y mo d. date_shape t y mo d) (ascii ''2025-01/02'') t
         \<and> date_shape t y mo d
         \<and> py_date (int_of_digits y) (int_of_digits mo) (int_of_digits d) = Inr (Date 2025 1 2))
   \<and> \<not> (\<exists>t y mo d. first_match (\<lambda>t. \<exists>y mo d. date_shape t y mo d) (ascii ''2025-1-32'') t
         \<and> date_shape t y mo d
         \<and> py_date (int_of_digits y) (int_of_digits mo) (int_of_digits d) = Inr (Date 2025 1 3))"
proof -
  have 1: "parse_date_loose (ascii ''2025-01/02'') = Some (Date 2025 1 2)"
    by (rule date_text_eval)
  have 2: "parse_date_loose (ascii ''2025-1-32'') \<noteq> Some (Date 2025 1 3)"
    by (simp add: date_text_eval)
  from 1 have 3: "\<exists>t y mo d. first_match (\<lambda>t. \<exists>y mo d. date_shape t y mo d) (ascii ''2025-01/02'') t
         \<and> date_shape t y mo d
         \<and> py_date (int_of_digits y) (int_of_digits mo) (int_of_digits d) = Inr (Date 2025 1 2)"
    by (rule iffD1 [OF parse_date_loose_first_match])
  from 2 have 4: "\<not> (\<exists>t y mo d. first_match (\<lambda>t. \<exists>y mo d. date_shape t y mo d) (ascii ''2025-1-32'') t
         \<and> date_shape t y mo d
         \<and> py_date (int_of_digits y) (int_of_digits mo) (int_of_digits d) = Inr (Date 2025 1 3))"
    unfolding parse_date_loose_first_match .
  from 1 3 4 show ?thesis by (intro conjI)
qed

end
